theory Spec2Isabelle
  imports Complex_Main "HOL-Library.Word"
begin

section \<open>The download-token tables (convex/files.ts)\<close>

text \<open>
  A Convex table is modelled as a list of slots in creation order: the document with
  id \<open>i\<close> sits in slot \<open>i\<close>, and a deleted document leaves \<open>None\<close> behind, so ids
  are unique and never reused. \<open>db_first\<close> is \<open>.first()\<close> on an index query: the
  earliest created document that satisfies the index condition.
\<close>

type_synonym 'd table = "'d option list"

definition db_get :: "'d table \<Rightarrow> nat \<Rightarrow> 'd option" where
  "db_get t i = (if i < length t then t ! i else None)"

definition db_insert :: "'d table \<Rightarrow> 'd \<Rightarrow> 'd table" where
  "db_insert t d = t @ [Some d]"

definition db_patch :: "'d table \<Rightarrow> nat \<Rightarrow> ('d \<Rightarrow> 'd) \<Rightarrow> 'd table" where
  "db_patch t i f = (if i < length t then t[i := map_option f (t ! i)] else t)"

definition db_delete :: "'d table \<Rightarrow> nat \<Rightarrow> 'd table" where
  "db_delete t i = (if i < length t then t[i := None] else t)"

fun first_from :: "nat \<Rightarrow> ('d \<Rightarrow> bool) \<Rightarrow> 'd table \<Rightarrow> (nat \<times> 'd) option" where
  "first_from i p [] = None"
| "first_from i p (None # t) = first_from (Suc i) p t"
| "first_from i p (Some d # t) = (if p d then Some (i, d) else first_from (Suc i) p t)"

definition db_first :: "('d \<Rightarrow> bool) \<Rightarrow> 'd table \<Rightarrow> (nat \<times> 'd) option" where
  "db_first p t = first_from 0 p t"

definition db_collect :: "('d \<Rightarrow> bool) \<Rightarrow> 'd table \<Rightarrow> 'd list" where
  "db_collect p t = filter p (List.map_filter id t)"

text \<open>
  The wrapping record stored with a password-protected file; the same record is what
  \<open>wrapKeyWithPassword\<close> returns (iterations and version are optional in the table).
  Of a file only the fields that the two mutations read or write are kept. Counters and
  times are JavaScript numbers that hold integers, here \<open>int\<close>: \<open>downloads\<close> is
  only ever written as 0 or as one more than it was. The download limit is the number
  that \<open>saveFile\<close> was given, stored as it came: its validator is \<open>v.number()\<close>,
  which admits every number and not only the whole ones, so \<open>maxDownloads\<close> is a
  \<open>real\<close>. An iteration count is a \<open>nat\<close>.
\<close>

record passwordProtection =
  pp_encryptedKey :: string
  pp_salt :: string
  pp_iv :: string
  pp_iterations :: "nat option"
  pp_version :: "nat option"

record fileDoc =
  storageId :: string
  f_expiresAt :: "int option"
  maxDownloads :: "real option"
  downloads :: "int option"
  lastDownloadAt :: "int option"
  f_passwordProtection :: "passwordProtection option"

record tokenDoc =
  t_fileId :: nat
  token :: string
  createdAt :: int
  used :: bool
  t_expiresAt :: int

record attemptDoc =
  a_fileId :: nat
  attemptTime :: int
  a_sessionId :: string

record historyDoc =
  h_fileId :: "nat option"
  h_downloads :: "int option"

record db =
  files :: "fileDoc table"
  downloadTokens :: "tokenDoc table"
  downloadAttempts :: "attemptDoc table"
  fileHistory :: "historyDoc table"

text \<open>\<open>x || 0\<close> on an optional number: an absent value and 0 both give 0.\<close>

definition or0 :: "int option \<Rightarrow> int" where
  "or0 x = (case x of None \<Rightarrow> 0 | Some n \<Rightarrow> n)"

text \<open>\<open>file.expiresAt && file.expiresAt < now\<close>: an absent or zero expiry is falsy.\<close>

definition isExpired :: "fileDoc \<Rightarrow> int \<Rightarrow> bool" where
  "isExpired file now =
     (case f_expiresAt file of None \<Rightarrow> False | Some e \<Rightarrow> e \<noteq> 0 \<and> e < now)"

text \<open>\<open>file.maxDownloads !== undefined && (file.downloads || 0) >= file.maxDownloads\<close>\<close>

definition limitReached :: "fileDoc \<Rightarrow> bool" where
  "limitReached file =
     (case maxDownloads file of
        None \<Rightarrow> False
      | Some m \<Rightarrow> real_of_int (or0 (downloads file)) \<ge> m)"

definition RATE_LIMIT_WINDOW :: int where "RATE_LIMIT_WINDOW = 15 * 60 * 1000"
definition MAX_ATTEMPTS :: nat where "MAX_ATTEMPTS = 5"
definition TOKEN_TTL :: int where "TOKEN_TTL = 5 * 60 * 1000"

datatype token_response =
    TokenNull
  | RATE_LIMITED int
  | TokenIssued "string option" string int

text \<open>\<open>Math.ceil(x / 1000 / 60)\<close> on an integer number of milliseconds.\<close>

definition ceil_minutes :: "int \<Rightarrow> int" where
  "ceil_minutes x = - ((- x) div 60000)"

text \<open>
  \<open>getDownloadToken\<close>. The rate limiting of password-protected files is the block
  \<open>rateLimit\<close>: \<open>Inl\<close> the minutes to wait, \<open>Inr\<close> the state with the attempt
  logged. The clock reading \<open>now\<close>, the value \<open>uuid\<close> of
  \<open>crypto.randomUUID()\<close> and the storage's \<open>getUrl\<close> are inputs. A session id is
  truthy when it is present and not the empty string. Every return commits the writes
  made before it, as a Convex mutation does.
\<close>

definition rateLimit :: "db \<Rightarrow> int \<Rightarrow> nat \<Rightarrow> fileDoc \<Rightarrow> string option \<Rightarrow> int + db" where
  "rateLimit s now fileId file sessionId =
     (case (f_passwordProtection file, sessionId) of
        (Some _, Some sid) \<Rightarrow>
          if sid = [] then Inr s
          else
            let recentAttempts =
              db_collect (\<lambda>a. a_fileId a = fileId \<and> a_sessionId a = sid
                               \<and> attemptTime a > now - RATE_LIMIT_WINDOW)
                (downloadAttempts s)
            in if length recentAttempts \<ge> MAX_ATTEMPTS then
                 let oldestAttempt = Min (set (map attemptTime recentAttempts))
                 in Inl (ceil_minutes (oldestAttempt + RATE_LIMIT_WINDOW - now))
               else
                 Inr (s\<lparr>downloadAttempts :=
                        db_insert (downloadAttempts s)
                          \<lparr>a_fileId = fileId, attemptTime = now, a_sessionId = sid\<rparr>\<rparr>)
      | _ \<Rightarrow> Inr s)"

definition getDownloadToken ::
  "db \<Rightarrow> int \<Rightarrow> string \<Rightarrow> (string \<Rightarrow> string option) \<Rightarrow> nat \<Rightarrow> string option
     \<Rightarrow> token_response \<times> db" where
  "getDownloadToken s now uuid getUrl fileId sessionId =
     (case db_get (files s) fileId of
        None \<Rightarrow> (TokenNull, s)
      | Some file \<Rightarrow>
          (case rateLimit s now fileId file sessionId of
             Inl retryAfter \<Rightarrow> (RATE_LIMITED retryAfter, s)
           | Inr s1 \<Rightarrow>
               if isExpired file now then (TokenNull, s1)
               else if limitReached file then (TokenNull, s1)
               else
                 (TokenIssued (getUrl (storageId file)) uuid TOKEN_TTL,
                  s1\<lparr>downloadTokens :=
                       db_insert (downloadTokens s1)
                         \<lparr>t_fileId = fileId, token = uuid, createdAt = now,
                          used = False, t_expiresAt = now + TOKEN_TTL\<rparr>\<rparr>)))"

datatype confirm_response =
    INVALID_TOKEN
  | TOKEN_EXPIRED
  | TOKEN_USED
  | FILE_NOT_FOUND
  | LIMIT_REACHED
  | Success

text \<open>\<open>confirmDownload\<close>, check by check in the order of the source.\<close>

definition confirmDownload :: "db \<Rightarrow> int \<Rightarrow> string \<Rightarrow> confirm_response \<times> db" where
  "confirmDownload s now tok =
     (case db_first (\<lambda>r. token r = tok) (downloadTokens s) of
        None \<Rightarrow> (INVALID_TOKEN, s)
      | Some (tid, tokenRecord) \<Rightarrow>
          if t_expiresAt tokenRecord < now then
            (TOKEN_EXPIRED, s\<lparr>downloadTokens := db_delete (downloadTokens s) tid\<rparr>)
          else if used tokenRecord then (TOKEN_USED, s)
          else
            (case db_get (files s) (t_fileId tokenRecord) of
               None \<Rightarrow>
                 (FILE_NOT_FOUND, s\<lparr>downloadTokens := db_delete (downloadTokens s) tid\<rparr>)
             | Some file \<Rightarrow>
                 if limitReached file then
                   (LIMIT_REACHED, s\<lparr>downloadTokens := db_delete (downloadTokens s) tid\<rparr>)
                 else
                   let s1 = s\<lparr>downloadTokens :=
                                db_patch (downloadTokens s) tid (\<lambda>r. r\<lparr>used := True\<rparr>)\<rparr>;
                       newDownloads = or0 (downloads file) + 1;
                       s2 = s1\<lparr>files :=
                                 db_patch (files s1) (t_fileId tokenRecord)
                                   (\<lambda>f. f\<lparr>downloads := Some newDownloads,
                                           lastDownloadAt := Some now\<rparr>)\<rparr>
                   in (case db_first (\<lambda>h. h_fileId h = Some (t_fileId tokenRecord))
                              (fileHistory s2) of
                         None \<Rightarrow> (Success, s2)
                       | Some (hid, historyEntry) \<Rightarrow>
                           (Success,
                            s2\<lparr>fileHistory :=
                                 db_patch (fileHistory s2) hid
                                   (\<lambda>h. h\<lparr>h_downloads := Some newDownloads\<rparr>)\<rparr>))))"

text \<open>The download counter of a file id, as the limit checks read it.\<close>

definition counter :: "db \<Rightarrow> nat \<Rightarrow> int option" where
  "counter s i = map_option (\<lambda>f. or0 (downloads f)) (db_get (files s) i)"

text \<open>Any number of token requests in a row, none of them confirmed.\<close>

fun tokenRequests ::
  "db \<Rightarrow> (string \<Rightarrow> string option) \<Rightarrow> (int \<times> string \<times> nat \<times> string option) list \<Rightarrow> db" where
  "tokenRequests s getUrl [] = s"
| "tokenRequests s getUrl ((now, uuid, fileId, sessionId) # reqs) =
     tokenRequests (snd (getDownloadToken s now uuid getUrl fileId sessionId)) getUrl reqs"


section \<open>Bytes, binary strings and Base64\<close>

type_synonym byte = "8 word"
type_synonym bytes = "byte list"

text \<open>
  A \<open>Uint8Array\<close> is a list of bytes. The strings that \<open>btoa\<close> takes and \<open>atob\<close>
  returns are binary strings, one character code in 0..255 per byte, which is what a
  \<open>char\<close> holds. \<open>fromCharCode\<close> is \<open>String.fromCharCode(...bytes)\<close> and
  \<open>charCodes\<close> is \<open>Uint8Array.from(s, c => c.charCodeAt(0))\<close>.
\<close>

definition fromCharCode :: "bytes \<Rightarrow> string" where
  "fromCharCode bs = map (\<lambda>b. char_of (unat b)) bs"

definition charCodes :: "string \<Rightarrow> bytes" where
  "charCodes s = map (\<lambda>c. of_nat (of_char c)) s"

text \<open>
  The Base64 alphabet of RFC 4648: \<open>A-Z\<close> are 0..25, \<open>a-z\<close> 26..51, \<open>0-9\<close>
  52..61, \<open>+\<close> is 62 and \<open>/\<close> is 63.
\<close>

definition b64char :: "nat \<Rightarrow> char" where
  "b64char n =
     (if n < 26 then char_of (n + 65)
      else if n < 52 then char_of (n + 71)
      else if n < 62 then char_of (n - 4)
      else if n = 62 then CHR ''+'' else CHR ''/'')"

definition b64val :: "char \<Rightarrow> nat option" where
  "b64val c =
     (let n = (of_char c :: nat)
      in if 65 \<le> n \<and> n \<le> 90 then Some (n - 65)
         else if 97 \<le> n \<and> n \<le> 122 then Some (n - 71)
         else if 48 \<le> n \<and> n \<le> 57 then Some (n + 4)
         else if c = CHR ''+'' then Some 62
         else if c = CHR ''/'' then Some 63
         else None)"

text \<open>\<open>btoa\<close>: three bytes become four characters, the last group is padded with \<open>=\<close>.\<close>

fun btoa_codes :: "nat list \<Rightarrow> string" where
  "btoa_codes [] = []"
| "btoa_codes [a] = [b64char (a div 4), b64char ((a mod 4) * 16), CHR ''='', CHR ''='']"
| "btoa_codes [a, b] =
     [b64char (a div 4), b64char ((a mod 4) * 16 + b div 16), b64char ((b mod 16) * 4),
      CHR ''='']"
| "btoa_codes (a # b # c # r) =
     [b64char (a div 4), b64char ((a mod 4) * 16 + b div 16),
      b64char ((b mod 16) * 4 + c div 64), b64char (c mod 64)] @ btoa_codes r"

definition btoa :: "string \<Rightarrow> string" where
  "btoa s = btoa_codes (map of_char s)"

text \<open>
  \<open>atob\<close> is the forgiving Base64 decoder of the HTML standard: ASCII whitespace is
  dropped; when the length is a multiple of four, one or two trailing \<open>=\<close> are removed;
  a length of 1 modulo 4 or a character outside the alphabet fails
  (\<open>InvalidCharacterError\<close>, here \<open>None\<close>); a final group of two or three characters
  gives one or two bytes, the left-over bits discarded.
\<close>

definition ascii_whitespace :: "char \<Rightarrow> bool" where
  "ascii_whitespace c = ((of_char c :: nat) \<in> {9, 10, 12, 13, 32})"

definition remove_padding :: "string \<Rightarrow> string" where
  "remove_padding d =
     (if length d mod 4 = 0 then
        (case rev d of
           c1 # c2 # r \<Rightarrow>
             if c1 = CHR ''='' then (if c2 = CHR ''='' then rev r else rev (c2 # r)) else d
         | _ \<Rightarrow> d)
      else d)"

fun atob_sextets :: "nat list \<Rightarrow> nat list" where
  "atob_sextets (a # b # c # d # r) =
     [a * 4 + b div 16, (b mod 16) * 16 + c div 4, (c mod 4) * 64 + d] @ atob_sextets r"
| "atob_sextets [a, b, c] = [a * 4 + b div 16, (b mod 16) * 16 + c div 4]"
| "atob_sextets [a, b] = [a * 4 + b div 16]"
| "atob_sextets _ = []"

definition atob :: "string \<Rightarrow> string option" where
  "atob s =
     (let d = remove_padding (filter (\<lambda>c. \<not> ascii_whitespace c) s)
      in if length d mod 4 = 1 then None
         else (case those (map b64val d) of
                 None \<Rightarrow> None
               | Some v \<Rightarrow> Some (map char_of (atob_sextets v))))"

text \<open>
  The string surgery of the key transport: \<open>.replace(/x/g, 'y')\<close>,
  \<open>.replace(/=+$/, '')\<close> and the loop \<open>while (base64.length % 4) base64 += '='\<close>.
\<close>

definition replaceAll :: "char \<Rightarrow> char \<Rightarrow> string \<Rightarrow> string" where
  "replaceAll x y s = map (\<lambda>c. if c = x then y else c) s"

definition stripTrailingEq :: "string \<Rightarrow> string" where
  "stripTrailingEq s = rev (dropWhile (\<lambda>c. c = CHR ''='') (rev s))"

function pad4 :: "string \<Rightarrow> string" where
  "pad4 s = (if length s mod 4 \<noteq> 0 then pad4 (s @ ''='') else s)"
  by pat_completeness auto
termination
proof (relation "measure (\<lambda>s. 3 - (length s + 3) mod 4)")
  show "wf (measure (\<lambda>s. 3 - (length s + 3) mod 4))" by simp
next
  fix s :: string
  assume "length s mod 4 \<noteq> 0"
  then have "3 - (Suc (length s) + 3) mod 4 < 3 - (length s + 3) mod 4"
    by presburger
  then show "(s @ ''='', s) \<in> measure (\<lambda>s. 3 - (length s + 3) mod 4)"
    by simp
qed

definition toUrlSafe :: "string \<Rightarrow> string" where
  "toUrlSafe b = stripTrailingEq (replaceAll CHR ''/'' CHR ''_'' (replaceAll CHR ''+'' CHR ''-'' b))"

definition fromUrlSafe :: "string \<Rightarrow> string" where
  "fromUrlSafe keyString =
     pad4 (replaceAll CHR ''_'' CHR ''/'' (replaceAll CHR ''-'' CHR ''+'' keyString))"


section \<open>The Web platform the client code calls\<close>

text \<open>
  The secure random source is a stream of bytes; \<open>getRandomValues n\<close> returns the next
  \<open>n\<close> bytes and the stream behind them.
\<close>

type_synonym rng = "nat \<Rightarrow> byte"

definition getRandomValues :: "nat \<Rightarrow> rng \<Rightarrow> bytes \<times> rng" where
  "getRandomValues n rng = (map rng [0..<n], (\<lambda>i. rng (n + i)))"

text \<open>
  What a call can throw: the DOM exceptions of \<open>atob\<close>, \<open>JSON.parse\<close> and
  \<open>crypto.subtle\<close>, the \<open>TypeError\<close> of an argument that its interface
  refuses, and \<open>new Error(message)\<close>.
\<close>

datatype error =
    InvalidCharacterError
  | SyntaxError
  | DataError
  | InvalidAccessError
  | OperationError
  | TypeError
  | Error string

datatype usage = Encrypt | Decrypt

text \<open>
  A \<open>CryptoKey\<close> for AES-GCM: the key bytes, the extractable flag and the usages.
  A JSON Web Key is what \<open>exportKey("jwk", ...)\<close> yields for it.
\<close>

record cryptoKey =
  material :: bytes
  extractable :: bool
  usages :: "usage list"

record jwk =
  jwk_key :: bytes
  jwk_ops :: "usage list"
  jwk_extractable :: bool

text \<open>A password is a JavaScript string: its UTF-16 code units.\<close>

type_synonym password = "16 word list"

text \<open>
  The primitives themselves are parameters of the model: AES-GCM on key bytes, IV and
  data (the ciphertext carries the tag; decryption is \<open>None\<close> when the tag does not
  verify), PBKDF2-HMAC-SHA-256 from the UTF-8 bytes of a password to 256 bits,
  \<open>JSON.stringify\<close> and \<open>JSON.parse\<close> of a JSON Web Key, and for a metadata object
  \<open>TextEncoder.encode(JSON.stringify(m))\<close> and \<open>JSON.parse(TextDecoder.decode(b))\<close>.
  \<open>dom_message\<close> is the \<open>message\<close> property of a DOM exception.
\<close>

record 'm platform =
  aes_gcm_encrypt :: "bytes \<Rightarrow> bytes \<Rightarrow> bytes \<Rightarrow> bytes"
  aes_gcm_decrypt :: "bytes \<Rightarrow> bytes \<Rightarrow> bytes \<Rightarrow> bytes option"
  pbkdf2 :: "password \<Rightarrow> bytes \<Rightarrow> nat \<Rightarrow> bytes"
  jwk_stringify :: "jwk \<Rightarrow> string"
  jwk_parse :: "string \<Rightarrow> error + jwk"
  json_encode :: "'m \<Rightarrow> bytes"
  json_decode :: "bytes \<Rightarrow> error + 'm"
  dom_message :: "error \<Rightarrow> string"

text \<open>
  \<open>crypto.subtle\<close> around the primitives: a key is used only for its usages, exported
  only when extractable, and imported only with a valid AES length; a JSON Web Key is
  imported only for usages among its \<open>key_ops\<close> and, as extractable, only when its
  \<open>ext\<close> allows.
\<close>

definition subtle_encrypt :: "'m platform \<Rightarrow> cryptoKey \<Rightarrow> bytes \<Rightarrow> bytes \<Rightarrow> error + bytes" where
  "subtle_encrypt pf key iv data =
     (if Encrypt \<in> set (usages key) then Inr (aes_gcm_encrypt pf (material key) iv data)
      else Inl InvalidAccessError)"

definition subtle_decrypt :: "'m platform \<Rightarrow> cryptoKey \<Rightarrow> bytes \<Rightarrow> bytes \<Rightarrow> error + bytes" where
  "subtle_decrypt pf key iv data =
     (if Decrypt \<in> set (usages key) then
        (case aes_gcm_decrypt pf (material key) iv data of
           None \<Rightarrow> Inl OperationError
         | Some p \<Rightarrow> Inr p)
      else Inl InvalidAccessError)"

definition aes_length :: "bytes \<Rightarrow> bool" where
  "aes_length b = (length b = 16 \<or> length b = 24 \<or> length b = 32)"

definition exportKey_raw :: "cryptoKey \<Rightarrow> error + bytes" where
  "exportKey_raw key = (if extractable key then Inr (material key) else Inl InvalidAccessError)"

definition importKey_raw :: "bytes \<Rightarrow> bool \<Rightarrow> usage list \<Rightarrow> error + cryptoKey" where
  "importKey_raw raw ext us =
     (if aes_length raw then Inr \<lparr>material = raw, extractable = ext, usages = us\<rparr>
      else Inl DataError)"

definition exportKey_jwk :: "cryptoKey \<Rightarrow> error + jwk" where
  "exportKey_jwk key =
     (if extractable key
      then Inr \<lparr>jwk_key = material key, jwk_ops = usages key, jwk_extractable = True\<rparr>
      else Inl InvalidAccessError)"

definition importKey_jwk :: "jwk \<Rightarrow> bool \<Rightarrow> usage list \<Rightarrow> error + cryptoKey" where
  "importKey_jwk j ext us =
     (if aes_length (jwk_key j) \<and> set us \<subseteq> set (jwk_ops j) \<and> (ext \<longrightarrow> jwk_extractable j)
      then Inr \<lparr>material = jwk_key j, extractable = ext, usages = us\<rparr>
      else Inl DataError)"


section \<open>The symmetric cipher module and the key transport\<close>

definition KEY_LENGTH :: nat where "KEY_LENGTH = 256"
definition IV_LENGTH :: nat where "IV_LENGTH = 12"

definition generateKey :: "rng \<Rightarrow> cryptoKey \<times> rng" where
  "generateKey rng =
     (case getRandomValues (KEY_LENGTH div 8) rng of
        (k, rng') \<Rightarrow> (\<lparr>material = k, extractable = True, usages = [Encrypt, Decrypt]\<rparr>, rng'))"

record encryptedFile =
  ef_encryptedBlob :: bytes
  ef_iv :: string
  ef_ivBytes :: bytes
  ef_keyString :: string

text \<open>
  The lines of \<open>encryptFile\<close> that turn the key into the string of the URL fragment:
  \<open>btoa(JSON.stringify(exportedKey))\<close> made URL-safe and stripped of its padding.
\<close>

definition exportKeyString :: "'m platform \<Rightarrow> cryptoKey \<Rightarrow> error + string" where
  "exportKeyString pf key =
     (case exportKey_jwk key of
        Inl e \<Rightarrow> Inl e
      | Inr exportedKey \<Rightarrow> Inr (toUrlSafe (btoa (jwk_stringify pf exportedKey))))"

definition encryptFile ::
  "'m platform \<Rightarrow> rng \<Rightarrow> bytes \<Rightarrow> cryptoKey \<Rightarrow> (error + encryptedFile) \<times> rng" where
  "encryptFile pf rng fileBuffer key =
     (case getRandomValues IV_LENGTH rng of
        (iv, rng') \<Rightarrow>
          ((case subtle_encrypt pf key iv fileBuffer of
              Inl e \<Rightarrow> Inl e
            | Inr encryptedBuffer \<Rightarrow>
                (case exportKeyString pf key of
                   Inl e \<Rightarrow> Inl e
                 | Inr ks \<Rightarrow>
                     Inr \<lparr>ef_encryptedBlob = encryptedBuffer,
                          ef_iv = btoa (fromCharCode iv),
                          ef_ivBytes = iv,
                          ef_keyString = ks\<rparr>)),
           rng'))"

definition encryptMetadata ::
  "'m platform \<Rightarrow> rng \<Rightarrow> 'm \<Rightarrow> cryptoKey \<Rightarrow> (error + string) \<times> rng" where
  "encryptMetadata pf rng metadata key =
     (let data = json_encode pf metadata
      in case getRandomValues IV_LENGTH rng of
           (metadataIv, rng') \<Rightarrow>
             ((case subtle_encrypt pf key metadataIv data of
                 Inl e \<Rightarrow> Inl e
               | Inr encrypted \<Rightarrow> Inr (btoa (fromCharCode (metadataIv @ encrypted)))),
              rng'))"

text \<open>
  \<open>decryptMetadata\<close> and \<open>decryptFile\<close> begin with the same lines, which rebuild the
  key from the string of the URL fragment; \<open>importKeyString\<close> is those lines.
\<close>

definition importKeyString :: "'m platform \<Rightarrow> string \<Rightarrow> error + cryptoKey" where
  "importKeyString pf keyString =
     (case atob (fromUrlSafe keyString) of
        None \<Rightarrow> Inl InvalidCharacterError
      | Some text \<Rightarrow>
          (case jwk_parse pf text of
             Inl e \<Rightarrow> Inl e
           | Inr j \<Rightarrow> importKey_jwk j True [Decrypt]))"

definition decryptMetadataWithKey :: "'m platform \<Rightarrow> string \<Rightarrow> cryptoKey \<Rightarrow> error + 'm" where
  "decryptMetadataWithKey pf encryptedMetadataB64 key =
     (case atob encryptedMetadataB64 of
        None \<Rightarrow> Inl InvalidCharacterError
      | Some bin \<Rightarrow>
          let combined = charCodes bin;
              iv = take IV_LENGTH combined;
              encryptedData = drop IV_LENGTH combined
          in (case subtle_decrypt pf key iv encryptedData of
                Inl e \<Rightarrow> Inl e
              | Inr decrypted \<Rightarrow> json_decode pf decrypted))"

definition decryptMetadata :: "'m platform \<Rightarrow> string \<Rightarrow> string \<Rightarrow> error + 'm" where
  "decryptMetadata pf encryptedMetadataB64 keyString =
     (case importKeyString pf keyString of
        Inl e \<Rightarrow> Inl e
      | Inr key \<Rightarrow> decryptMetadataWithKey pf encryptedMetadataB64 key)"

definition decryptFile :: "'m platform \<Rightarrow> bytes \<Rightarrow> string \<Rightarrow> string \<Rightarrow> error + bytes" where
  "decryptFile pf encryptedBlob keyString ivString =
     (case importKeyString pf keyString of
        Inl e \<Rightarrow> Inl e
      | Inr key \<Rightarrow>
          (case atob ivString of
             None \<Rightarrow> Inl InvalidCharacterError
           | Some bin \<Rightarrow> subtle_decrypt pf key (charCodes bin) encryptedBlob))"


section \<open>The password key-wrapping module\<close>

definition CURRENT_ITERATIONS :: nat where "CURRENT_ITERATIONS = 310000"
definition LEGACY_ITERATIONS :: nat where "LEGACY_ITERATIONS = 100000"

text \<open>
  \<open>derivePasswordKey_Simple\<close>: \<open>importKey\<close> of the password and \<open>deriveKey\<close> with
  PBKDF2. The \<open>iterations\<close> member of the PBKDF2 parameters is an
  \<open>[EnforceRange] unsigned long\<close>: a count of 4294967296 or more is refused with a
  \<open>TypeError\<close> when the parameters are read, and the derivation itself refuses the
  count 0 with an \<open>OperationError\<close>. The derived key is not extractable.
\<close>

definition derivePasswordKey_Simple ::
  "'m platform \<Rightarrow> password \<Rightarrow> bytes \<Rightarrow> nat \<Rightarrow> error + cryptoKey" where
  "derivePasswordKey_Simple pf pw salt iterations =
     (if 4294967296 \<le> iterations then Inl TypeError
      else if iterations = 0 then Inl OperationError
      else Inr \<lparr>material = pbkdf2 pf pw salt iterations, extractable = False,
                usages = [Encrypt, Decrypt]\<rparr>)"

definition wrapKeyWithPassword ::
  "'m platform \<Rightarrow> rng \<Rightarrow> cryptoKey \<Rightarrow> password \<Rightarrow> (error + passwordProtection) \<times> rng" where
  "wrapKeyWithPassword pf rng fileKey pw =
     (case getRandomValues 16 rng of
        (salt, rng1) \<Rightarrow>
          let saltString = btoa (fromCharCode salt)
          in (case derivePasswordKey_Simple pf pw salt CURRENT_ITERATIONS of
                Inl e \<Rightarrow> (Inl e, rng1)
              | Inr passwordKey \<Rightarrow>
                  (case exportKey_raw fileKey of
                     Inl e \<Rightarrow> (Inl e, rng1)
                   | Inr fileKeyRaw \<Rightarrow>
                       (case getRandomValues 12 rng1 of
                          (iv, rng2) \<Rightarrow>
                            ((case subtle_encrypt pf passwordKey iv fileKeyRaw of
                                Inl e \<Rightarrow> Inl e
                              | Inr encryptedKeyBuffer \<Rightarrow>
                                  Inr \<lparr>pp_encryptedKey =
                                         btoa (fromCharCode encryptedKeyBuffer),
                                       pp_salt = saltString,
                                       pp_iv = btoa (fromCharCode iv),
                                       pp_iterations = Some CURRENT_ITERATIONS,
                                       pp_version = Some 2\<rparr>),
                             rng2)))))"

text \<open>\<open>iterations || LEGACY_ITERATIONS\<close>: \<open>null\<close>, \<open>undefined\<close> and 0 are falsy.\<close>

definition iterationCount :: "nat option \<Rightarrow> nat" where
  "iterationCount iterations =
     (case iterations of
        None \<Rightarrow> LEGACY_ITERATIONS
      | Some n \<Rightarrow> if n = 0 then LEGACY_ITERATIONS else n)"

definition IncorrectPassword :: error where
  "IncorrectPassword = Error ''Incorrect Password''"

text \<open>
  \<open>unwrapKeyWithPassword\<close>: the three \<open>atob\<close> calls and the derivation stand before
  the \<open>try\<close>, so what they throw leaves the function as it is; whatever the
  decryption or the import throws inside the \<open>try\<close> is replaced by
  \<open>Error("Incorrect Password")\<close>.
\<close>

definition unwrapKeyWithPassword ::
  "'m platform \<Rightarrow> string \<Rightarrow> password \<Rightarrow> string \<Rightarrow> string \<Rightarrow> nat option \<Rightarrow> error + cryptoKey" where
  "unwrapKeyWithPassword pf encryptedKeyStr pw saltStr ivStr iterations =
     (case atob saltStr of
        None \<Rightarrow> Inl InvalidCharacterError
      | Some saltBin \<Rightarrow>
          (case atob ivStr of
             None \<Rightarrow> Inl InvalidCharacterError
           | Some ivBin \<Rightarrow>
               (case atob encryptedKeyStr of
                  None \<Rightarrow> Inl InvalidCharacterError
                | Some keyBin \<Rightarrow>
                    (case derivePasswordKey_Simple pf pw (charCodes saltBin)
                            (iterationCount iterations) of
                       Inl e \<Rightarrow> Inl e
                     | Inr passwordKey \<Rightarrow>
                         (case subtle_decrypt pf passwordKey (charCodes ivBin)
                                 (charCodes keyBin) of
                            Inl e \<Rightarrow> Inl IncorrectPassword
                          | Inr fileKeyRaw \<Rightarrow>
                              (case importKey_raw fileKeyRaw True [Encrypt, Decrypt] of
                                 Inl e \<Rightarrow> Inl IncorrectPassword
                               | Inr fileKey \<Rightarrow> Inr fileKey))))))"


section \<open>The download page\<close>

text \<open>
  \<open>executeDownload\<close> of the download page. The component state it reads and sets is
  the record \<open>page\<close>; what it sends out (requests, the save of the decrypted file, the
  \<open>console.error\<close> of the outer \<open>catch\<close>) is logged in \<open>effects\<close>. The outcomes
  of its four requests are inputs, \<open>Inl\<close> when the \<open>fetch\<close> or the parsing of its
  reply throws. The metadata object is \<open>{name, type}\<close>. The note of the download that
  the page leaves in \<open>sessionStorage\<close> is not modelled.
\<close>

record metadata =
  m_name :: string
  m_type :: string

datatype status = Idle | Decrypting | Done | Failed

record fileMeta =
  fm_publicName :: string
  fm_encryptedMetadata :: string
  fm_iv :: string
  fm_passwordProtection :: "passwordProtection option"

record tokenReply =
  r_error :: "string option"
  r_message :: string
  r_url :: "string option"
  r_token :: "string option"

datatype effect =
    VerifyTurnstile string
  | RequestToken "string option"
  | FetchBlob string
  | Save string bytes
  | ConfirmDownload string
  | ConsoleError error

record network =
  turnstile :: "string \<Rightarrow> error + bool"
  downloadToken :: "string option \<Rightarrow> error + tokenReply option"
  fetchBlob :: "string \<Rightarrow> error + bool \<times> bytes"
  confirmRequest :: "string \<Rightarrow> error + unit"

record page =
  status :: status
  errorMsg :: string
  rateLimitMsg :: "string option"
  realFilename :: "string option"
  turnstileToken :: "string option"
  effects :: "effect list"

text \<open>
  A string state or reply field is truthy when it is present and not empty;
  \<open>truthy\<close> keeps such a value and drops the others.
\<close>

definition truthy :: "string option \<Rightarrow> string option" where
  "truthy x = (case x of None \<Rightarrow> None | Some v \<Rightarrow> if v = [] then None else Some v)"

text \<open>\<open>err.message\<close>, and the outer \<open>catch\<close> of \<open>executeDownload\<close>.\<close>

definition message :: "'m platform \<Rightarrow> error \<Rightarrow> string" where
  "message pf err = (case err of Error m \<Rightarrow> m | _ \<Rightarrow> dom_message pf err)"

definition failWith :: "'m platform \<Rightarrow> error \<Rightarrow> page \<Rightarrow> page" where
  "failWith pf err pg =
     pg\<lparr>status := Failed, errorMsg := message pf err,
        effects := effects pg @ [ConsoleError err]\<rparr>"

text \<open>
  The first block of the \<open>try\<close>: with a wrapping record the password is checked, the
  human verification is made and the key is unwrapped, then the metadata is decrypted
  inside a \<open>try\<close> of its own whose \<open>catch\<close> is empty; without one the URL fragment
  must be present. \<open>Inl\<close> is what is thrown, with the state at that point.
\<close>

definition acquireKey ::
  "metadata platform \<Rightarrow> network \<Rightarrow> fileMeta \<Rightarrow> password \<Rightarrow> string \<Rightarrow> page
     \<Rightarrow> error \<times> page + cryptoKey option \<times> metadata option \<times> page" where
  "acquireKey pf net fileData pw hashKey pg =
     (case fm_passwordProtection fileData of
        Some pp \<Rightarrow>
          if pw = [] then Inl (Error ''Password required'', pg)
          else
            (case truthy (turnstileToken pg) of
               None \<Rightarrow> Inl (Error ''Please complete the security verification.'', pg)
             | Some tt \<Rightarrow>
                 let pg1 = pg\<lparr>effects := effects pg @ [VerifyTurnstile tt]\<rparr>
                 in (case turnstile net tt of
                       Inl e \<Rightarrow> Inl (e, pg1)
                     | Inr success \<Rightarrow>
                         if \<not> success then
                           Inl (Error ''Security verification failed. Please try again.'',
                                pg1\<lparr>turnstileToken := None\<rparr>)
                         else
                           (case unwrapKeyWithPassword pf (pp_encryptedKey pp) pw (pp_salt pp)
                                   (pp_iv pp) (pp_iterations pp) of
                              Inl e \<Rightarrow> Inl (e, pg1)
                            | Inr fileKey \<Rightarrow>
                                (case decryptMetadataWithKey pf (fm_encryptedMetadata fileData)
                                        fileKey of
                                   Inl e \<Rightarrow> Inr (Some fileKey, None, pg1)
                                 | Inr decryptedMeta \<Rightarrow>
                                     Inr (Some fileKey, Some decryptedMeta,
                                          pg1\<lparr>realFilename :=
                                                 Some (m_name decryptedMeta)\<rparr>)))))
      | None \<Rightarrow>
          if hashKey = [] then Inl (Error ''Missing decryption key in URL.'', pg)
          else Inr (None, None, pg))"

text \<open>The decryption of the fetched blob: with the unwrapped key, or from the fragment.\<close>

definition decryptBlob ::
  "metadata platform \<Rightarrow> fileMeta \<Rightarrow> cryptoKey option \<Rightarrow> string \<Rightarrow> bytes \<Rightarrow> error + bytes" where
  "decryptBlob pf fileData fileKey hashKey encryptedBlob =
     (case (fm_passwordProtection fileData, fileKey) of
        (Some pp, Some key) \<Rightarrow>
          (case atob (fm_iv fileData) of
             None \<Rightarrow> Inl InvalidCharacterError
           | Some bin \<Rightarrow> subtle_decrypt pf key (charCodes bin) encryptedBlob)
      | _ \<Rightarrow> decryptFile pf encryptedBlob hashKey (fm_iv fileData))"

text \<open>\<open>realFilename || decryptedMeta?.name || fileData.publicName\<close>\<close>

definition finalFilename :: "string option \<Rightarrow> metadata option \<Rightarrow> fileMeta \<Rightarrow> string" where
  "finalFilename rf decryptedMeta fileData =
     (case truthy rf of
        Some n \<Rightarrow> n
      | None \<Rightarrow>
          (case truthy (map_option m_name decryptedMeta) of
             Some n \<Rightarrow> n
           | None \<Rightarrow> fm_publicName fileData))"

text \<open>
  The rest of the \<open>try\<close> once the key is there: the token request, the fetch, the
  decryption, the save, and the confirmation, whose own \<open>catch\<close> is empty.
\<close>

definition download ::
  "metadata platform \<Rightarrow> network \<Rightarrow> string \<Rightarrow> fileMeta \<Rightarrow> string \<Rightarrow> string option
     \<Rightarrow> cryptoKey option \<Rightarrow> metadata option \<Rightarrow> page \<Rightarrow> page" where
  "download pf net sessionId fileData hashKey rf fileKey decryptedMeta pg =
     (let sid = (if fm_passwordProtection fileData \<noteq> None then Some sessionId else None);
          pg2 = pg\<lparr>effects := effects pg @ [RequestToken sid]\<rparr>
      in case downloadToken net sid of
           Inl e \<Rightarrow> failWith pf e pg2
         | Inr result \<Rightarrow>
             (case result of
                None \<Rightarrow> failWith pf (Error ''Download limit reached or file expired.'') pg2
              | Some r \<Rightarrow>
                  if r_error r = Some ''RATE_LIMITED'' then
                    pg2\<lparr>status := Failed, rateLimitMsg := Some (r_message r),
                        errorMsg := r_message r\<rparr>
                  else
                    (case (truthy (r_url r), truthy (r_token r)) of
                       (Some url, Some tok) \<Rightarrow>
                         let pg3 = pg2\<lparr>effects := effects pg2 @ [FetchBlob url]\<rparr>
                         in (case fetchBlob net url of
                               Inl e \<Rightarrow> failWith pf e pg3
                             | Inr (ok, encryptedBlob) \<Rightarrow>
                                 if \<not> ok then
                                   failWith pf (Error ''Failed to download file.'') pg3
                                 else
                                   (case decryptBlob pf fileData fileKey hashKey
                                           encryptedBlob of
                                      Inl e \<Rightarrow> failWith pf e pg3
                                    | Inr decrypted \<Rightarrow>
                                        let pg4 =
                                          pg3\<lparr>status := Done,
                                              effects := effects pg3 @
                                                [Save (finalFilename rf decryptedMeta fileData)
                                                   decrypted,
                                                 ConfirmDownload tok]\<rparr>
                                        in (case confirmRequest net tok of
                                              Inl e \<Rightarrow> pg4
                                            | Inr _ \<Rightarrow> pg4)))
                     | _ \<Rightarrow>
                         failWith pf (Error ''Download limit reached or file expired.'') pg2)))"

definition executeDownload ::
  "metadata platform \<Rightarrow> network \<Rightarrow> string \<Rightarrow> fileMeta option \<Rightarrow> password \<Rightarrow> string \<Rightarrow> page
     \<Rightarrow> page" where
  "executeDownload pf net sessionId fileData pw hashKey pg0 =
     (case fileData of
        None \<Rightarrow> pg0
      | Some fd \<Rightarrow>
          let pg = pg0\<lparr>status := Decrypting, rateLimitMsg := None\<rparr>
          in (case acquireKey pf net fd pw hashKey pg of
                Inl (e, pg1) \<Rightarrow> failWith pf e pg1
              | Inr (fileKey, decryptedMeta, pg1) \<Rightarrow>
                  download pf net sessionId fd hashKey (realFilename pg0) fileKey
                    decryptedMeta pg1))"


section \<open>What the claims assume of the platform\<close>

text \<open>
  AES-GCM decrypts what it encrypted under the same key and IV; \<open>JSON.parse\<close> reads
  back the JSON Web Key that \<open>JSON.stringify\<close> wrote; the ciphertext is the length of
  the plaintext plus the 16-byte tag; two different 12-byte IVs give two different
  ciphertexts.
\<close>

definition aead_correct :: "'m platform \<Rightarrow> bool" where
  "aead_correct pf =
     (\<forall>k iv p. aes_gcm_decrypt pf k iv (aes_gcm_encrypt pf k iv p) = Some p)"

definition jwk_json_roundtrip :: "'m platform \<Rightarrow> bool" where
  "jwk_json_roundtrip pf = (\<forall>j. jwk_parse pf (jwk_stringify pf j) = Inr j)"

definition tag_16_bytes :: "'m platform \<Rightarrow> bool" where
  "tag_16_bytes pf = (\<forall>k iv p. length (aes_gcm_encrypt pf k iv p) = length p + 16)"

definition iv_separates :: "'m platform \<Rightarrow> bool" where
  "iv_separates pf =
     (\<forall>k p iv iv'. length iv = 12 \<and> length iv' = 12 \<and> iv \<noteq> iv'
        \<longrightarrow> aes_gcm_encrypt pf k iv p \<noteq> aes_gcm_encrypt pf k iv' p)"

text \<open>
  The wrapping that the body of \<open>wrapKeyWithPassword\<close> produces from a salt, an IV and
  an iteration count \<open>n\<close>; with \<open>n\<close> the legacy count it is a wrapping issued before
  the default was raised.
\<close>

definition wrappingAt ::
  "'m platform \<Rightarrow> nat \<Rightarrow> bytes \<Rightarrow> bytes \<Rightarrow> bytes \<Rightarrow> password \<Rightarrow> nat option \<Rightarrow> passwordProtection" where
  "wrappingAt pf n salt iv fileKeyRaw pw stored =
     \<lparr>pp_encryptedKey =
        btoa (fromCharCode (aes_gcm_encrypt pf (pbkdf2 pf pw salt n) iv fileKeyRaw)),
      pp_salt = btoa (fromCharCode salt),
      pp_iv = btoa (fromCharCode iv),
      pp_iterations = stored,
      pp_version = None\<rparr>"


section \<open>A small platform to run the model on\<close>

text \<open>
  A platform whose primitives are simple enough to compute with: the cipher masks the data with the first key byte and appends
  a 16-byte tag made of the IV and the first four key bytes; the key derivation puts the
  iteration count (modulo 256) before the password and the salt.
\<close>

definition toy_tag :: "bytes \<Rightarrow> bytes \<Rightarrow> bytes" where
  "toy_tag k iv = take 12 (iv @ replicate 12 0) @ take 4 (k @ replicate 4 0)"

definition toy_mask :: "bytes \<Rightarrow> byte" where
  "toy_mask k = (case k of [] \<Rightarrow> 0 | b # _ \<Rightarrow> b)"

definition toy_encrypt :: "bytes \<Rightarrow> bytes \<Rightarrow> bytes \<Rightarrow> bytes" where
  "toy_encrypt k iv p = map (\<lambda>b. b + toy_mask k) p @ toy_tag k iv"

definition toy_decrypt :: "bytes \<Rightarrow> bytes \<Rightarrow> bytes \<Rightarrow> bytes option" where
  "toy_decrypt k iv c =
     (if 16 \<le> length c \<and> drop (length c - 16) c = toy_tag k iv
      then Some (map (\<lambda>b. b - toy_mask k) (take (length c - 16) c))
      else None)"

definition toy_kdf :: "byte \<Rightarrow> password \<Rightarrow> bytes \<Rightarrow> bytes" where
  "toy_kdf b pw salt = take 32 (b # map ucast pw @ salt @ replicate 32 0)"

definition toy_pbkdf2 :: "password \<Rightarrow> bytes \<Rightarrow> nat \<Rightarrow> bytes" where
  "toy_pbkdf2 pw salt n = toy_kdf (of_nat (n mod 256)) pw salt"

fun usage_char :: "usage \<Rightarrow> char" where
  "usage_char Encrypt = CHR ''e''"
| "usage_char Decrypt = CHR ''d''"

fun char_usage :: "char \<Rightarrow> usage" where
  "char_usage c = (if c = CHR ''e'' then Encrypt else Decrypt)"

definition toy_jwk_stringify :: "jwk \<Rightarrow> string" where
  "toy_jwk_stringify j =
     (if jwk_extractable j then CHR ''T'' else CHR ''F'')
       # map usage_char (jwk_ops j) @ CHR '':'' # fromCharCode (jwk_key j)"

definition toy_jwk_parse :: "string \<Rightarrow> error + jwk" where
  "toy_jwk_parse s =
     (case s of
        [] \<Rightarrow> Inl SyntaxError
      | c # rest \<Rightarrow>
          (case dropWhile (\<lambda>x. x \<noteq> CHR '':'') rest of
             [] \<Rightarrow> Inl SyntaxError
           | _ # key \<Rightarrow>
               Inr \<lparr>jwk_key = charCodes key,
                    jwk_ops = map char_usage (takeWhile (\<lambda>x. x \<noteq> CHR '':'') rest),
                    jwk_extractable = (c = CHR ''T'')\<rparr>))"

definition toy_json_encode :: "metadata \<Rightarrow> bytes" where
  "toy_json_encode m = charCodes (m_name m @ CHR ''|'' # m_type m)"

definition toy_json_decode :: "bytes \<Rightarrow> error + metadata" where
  "toy_json_decode b =
     (let s = fromCharCode b
      in case dropWhile (\<lambda>x. x \<noteq> CHR ''|'') s of
           [] \<Rightarrow> Inl SyntaxError
         | _ # t \<Rightarrow> Inr \<lparr>m_name = takeWhile (\<lambda>x. x \<noteq> CHR ''|'') s, m_type = t\<rparr>)"

definition toy_message :: "error \<Rightarrow> string" where
  "toy_message e = ''The operation failed''"

definition toy :: "metadata platform" where
  "toy = \<lparr>aes_gcm_encrypt = toy_encrypt, aes_gcm_decrypt = toy_decrypt,
          pbkdf2 = toy_pbkdf2, jwk_stringify = toy_jwk_stringify,
          jwk_parse = toy_jwk_parse, json_encode = toy_json_encode,
          json_decode = toy_json_decode, dom_message = toy_message\<rparr>"

definition counting :: rng where
  "counting i = of_nat (7 * i + 1)"

definition ex_key :: cryptoKey where
  "ex_key = fst (generateKey counting)"

definition ex_meta :: metadata where
  "ex_meta = \<lparr>m_name = ''report.pdf'', m_type = ''application/pdf''\<rparr>"

definition ex_plain :: bytes where
  "ex_plain = [72, 101, 108, 108, 111]"

definition ex_encrypted :: encryptedFile where
  "ex_encrypted =
     \<lparr>ef_encryptedBlob =
        [73, 102, 109, 109, 112, 1, 8, 15, 22, 29, 36, 43, 50, 57, 64, 71, 78, 1, 8, 15, 22],
      ef_iv = ''AQgPFh0kKzI5QEdO'',
      ef_ivBytes = [1, 8, 15, 22, 29, 36, 43, 50, 57, 64, 71, 78],
      ef_keyString = ''VGVkOgEIDxYdJCsyOUBHTlVcY2pxeH-GjZSboqmwt77FzNPa''\<rparr>"

definition ex_envelope :: string where
  "ex_envelope =
     ''AQgPFh0kKzI5QEdOc2ZxcHN1L3FlZ31icXFtamRidWpwbzBxZWcBCA8WHSQrMjlAR04BCA8W''"

definition counting_next :: rng where
  "counting_next i = counting (12 + i)"

definition ex_encrypted_next :: encryptedFile where
  "ex_encrypted_next =
     \<lparr>ef_encryptedBlob =
        [73, 102, 109, 109, 112, 85, 92, 99, 106, 113, 120, 127, 134, 141, 148, 155, 162,
         1, 8, 15, 22],
      ef_iv = ''VVxjanF4f4aNlJui'',
      ef_ivBytes = [85, 92, 99, 106, 113, 120, 127, 134, 141, 148, 155, 162],
      ef_keyString = ''VGVkOgEIDxYdJCsyOUBHTlVcY2pxeH-GjZSboqmwt77FzNPa''\<rparr>"

definition ex_envelope_next :: string where
  "ex_envelope_next =
     ''VVxjanF4f4aNlJuic2ZxcHN1L3FlZ31icXFtamRidWpwbzBxZWdVXGNqcXh/ho2Um6IBCA8W''"

definition ex_password :: password where
  "ex_password = map of_char ''CorrectHorse1!''"

definition ex_wrong :: password where
  "ex_wrong = map of_char ''wrong''"

definition ex_wrapping :: passwordProtection where
  "ex_wrapping =
     \<lparr>pp_encryptedKey = ''8fj/Bg0UGyIpMDc+RUxTWmFob3Z9hIuSmaCnrrW8w8pxeH+GjZSboqmwt77wQ29y'',
      pp_salt = ''AQgPFh0kKzI5QEdOVVxjag=='',
      pp_iv = ''cXh/ho2Um6KpsLe+'',
      pp_iterations = Some 310000,
      pp_version = Some 2\<rparr>"

definition ex_legacy :: passwordProtection where
  "ex_legacy =
     \<lparr>pp_encryptedKey = ''oaivtr3Ey9LZ4Ofu9fwDChEYHyYtNDtCSVBXXmVsc3pxeH+GjZSboqmwt76gQ29y'',
      pp_salt = ''AQgPFh0kKzI5QEdOVVxjag=='',
      pp_iv = ''cXh/ho2Um6KpsLe+'',
      pp_iterations = None,
      pp_version = None\<rparr>"

definition ex_unwrapped :: cryptoKey where
  "ex_unwrapped = \<lparr>material = material ex_key, extractable = True, usages = [Encrypt, Decrypt]\<rparr>"

definition ex_salt :: bytes where
  "ex_salt = [1, 8, 15, 22, 29, 36, 43, 50, 57, 64, 71, 78, 85, 92, 99, 106]"

definition ex_iv :: bytes where
  "ex_iv = [113, 120, 127, 134, 141, 148, 155, 162, 169, 176, 183, 190]"


section \<open>Example states\<close>

text \<open>
  A file limited to one download, two tokens issued for it at times 0 and 10, and the
  state after the first token has been confirmed at time 1000.
\<close>

definition ex_file :: fileDoc where
  "ex_file = \<lparr>storageId = ''blob-1'', f_expiresAt = None, maxDownloads = Some 1,
              downloads = Some 0, lastDownloadAt = None, f_passwordProtection = None\<rparr>"

definition ex_token :: tokenDoc where
  "ex_token = \<lparr>t_fileId = 0, token = ''tok-1'', createdAt = 0, used = False,
               t_expiresAt = 300000\<rparr>"

definition ex_token2 :: tokenDoc where
  "ex_token2 = \<lparr>t_fileId = 0, token = ''tok-2'', createdAt = 10, used = False,
                t_expiresAt = 300010\<rparr>"

definition ex_db :: db where
  "ex_db = \<lparr>files = [Some ex_file], downloadTokens = [], downloadAttempts = [],
            fileHistory = [Some \<lparr>h_fileId = Some 0, h_downloads = Some 0\<rparr>]\<rparr>"

definition ex_getUrl :: "string \<Rightarrow> string option" where
  "ex_getUrl sid = Some (''https://storage/'' @ sid)"

definition ex_issued :: db where
  "ex_issued = ex_db\<lparr>downloadTokens := [Some ex_token, Some ex_token2]\<rparr>"

definition ex_confirmed :: db where
  "ex_confirmed =
     \<lparr>files = [Some (ex_file\<lparr>downloads := Some 1, lastDownloadAt := Some 1000\<rparr>)],
      downloadTokens = [Some (ex_token\<lparr>used := True\<rparr>), Some ex_token2],
      downloadAttempts = [],
      fileHistory = [Some \<lparr>h_fileId = Some 0, h_downloads = Some 1\<rparr>]\<rparr>"


text \<open>
  A file that \<open>saveFile\<close> stored with the download limit 0.5 for a sender who is not
  signed in (no history entry), the state after a token has been issued for it at time
  0, and the state after that token has been confirmed at time 1000.
\<close>

definition ex_half_file :: fileDoc where
  "ex_half_file = \<lparr>storageId = ''blob-2'', f_expiresAt = None, maxDownloads = Some (1 / 2),
                   downloads = Some 0, lastDownloadAt = None, f_passwordProtection = None\<rparr>"

definition ex_half_db :: db where
  "ex_half_db = \<lparr>files = [Some ex_half_file], downloadTokens = [], downloadAttempts = [],
                 fileHistory = []\<rparr>"

definition ex_half_issued :: db where
  "ex_half_issued = ex_half_db\<lparr>downloadTokens := [Some ex_token]\<rparr>"

definition ex_half_confirmed :: db where
  "ex_half_confirmed =
     \<lparr>files = [Some (ex_half_file\<lparr>downloads := Some 1, lastDownloadAt := Some 1000\<rparr>)],
      downloadTokens = [Some (ex_token\<lparr>used := True\<rparr>)],
      downloadAttempts = [],
      fileHistory = []\<rparr>"


text \<open>
  A password-protected file whose metadata envelope is not a valid one, a network whose
  requests all succeed, and the page before the download.
\<close>

definition ex_fileData :: fileMeta where
  "ex_fileData =
     \<lparr>fm_publicName = ''File-x7k2m9qa'',
      fm_encryptedMetadata = ''AAAA'',
      fm_iv = ''AQgPFh0kKzI5QEdO'',
      fm_passwordProtection = Some ex_wrapping\<rparr>"

definition ex_turnstile :: "string \<Rightarrow> error + bool" where
  "ex_turnstile t = Inr True"

definition ex_downloadToken :: "string option \<Rightarrow> error + tokenReply option" where
  "ex_downloadToken sid =
     Inr (Some \<lparr>r_error = None, r_message = [], r_url = Some ''https://storage/blob-1'',
                r_token = Some ''tok-1''\<rparr>)"

definition ex_fetchBlob :: "string \<Rightarrow> error + bool \<times> bytes" where
  "ex_fetchBlob url = Inr (True, ef_encryptedBlob ex_encrypted)"

definition ex_confirmRequest :: "string \<Rightarrow> error + unit" where
  "ex_confirmRequest t = Inr ()"

definition ex_net :: network where
  "ex_net = \<lparr>turnstile = ex_turnstile, downloadToken = ex_downloadToken,
             fetchBlob = ex_fetchBlob, confirmRequest = ex_confirmRequest\<rparr>"

definition ex_page :: page where
  "ex_page = \<lparr>status = Idle, errorMsg = [], rateLimitMsg = None, realFilename = None,
              turnstileToken = Some ''human'', effects = []\<rparr>"


section \<open>Properties of the download-token protocol\<close>

lemma first_from_SomeD:
  "first_from i p t = Some (j, d) \<Longrightarrow> i \<le> j \<and> j < i + length t \<and> t ! (j - i) = Some d \<and> p d"
proof (induction i p t rule: first_from.induct)
  case (1 i p)
  then show ?case by simp
next
  case (2 i p t)
  then have a: "Suc i \<le> j \<and> j < Suc i + length t \<and> t ! (j - Suc i) = Some d \<and> p d" by simp
  then obtain k where k: "j - i = Suc k" "j - Suc i = k" by (cases "j - i") auto
  from a show ?case by (simp add: k)
next
  case (3 i p d' t)
  show ?case
  proof (cases "p d'")
    case True
    with 3 show ?thesis by simp
  next
    case False
    with 3 have a: "Suc i \<le> j \<and> j < Suc i + length t \<and> t ! (j - Suc i) = Some d \<and> p d" by simp
    then obtain k where k: "j - i = Suc k" "j - Suc i = k" by (cases "j - i") auto
    from a show ?thesis by (simp add: k)
  qed
qed

lemma db_first_SomeD:
  "db_first p t = Some (j, d) \<Longrightarrow> j < length t \<and> t ! j = Some d \<and> p d"
  using first_from_SomeD [of 0 p t j d] by (simp add: db_first_def)

lemma first_from_update:
  "first_from i p t = Some (j, d) \<Longrightarrow> p (f d) \<Longrightarrow>
     first_from i p (t[j - i := Some (f d)]) = Some (j, f d)"
proof (induction i p t rule: first_from.induct)
  case (1 i p)
  then show ?case by simp
next
  case (2 i p t)
  then have a: "first_from (Suc i) p t = Some (j, d)" by simp
  from first_from_SomeD [OF a] have "Suc i \<le> j" by simp
  then obtain k where k: "j - i = Suc k" "j - Suc i = k" by (cases "j - i") auto
  from 2 a show ?case by (simp add: k)
next
  case (3 i p d' t)
  show ?case
  proof (cases "p d'")
    case True
    with 3 show ?thesis by simp
  next
    case False
    with 3 have a: "first_from (Suc i) p t = Some (j, d)" by simp
    from first_from_SomeD [OF a] have "Suc i \<le> j" by simp
    then obtain k where k: "j - i = Suc k" "j - Suc i = k" by (cases "j - i") auto
    from 3 a False show ?thesis by (simp add: k)
  qed
qed

lemma db_first_patch:
  assumes "db_first p t = Some (j, d)" and "p (f d)"
  shows "db_first p (db_patch t j f) = Some (j, f d)"
proof -
  from db_first_SomeD [OF assms(1)] have "j < length t" "t ! j = Some d" by simp_all
  then have "db_patch t j f = t[j - 0 := Some (f d)]" by (simp add: db_patch_def)
  then show ?thesis
    using first_from_update [of 0 p t j d f] assms by (simp add: db_first_def)
qed

lemma db_get_patch:
  "db_get (db_patch t j f) i = (if i = j then map_option f (db_get t j) else db_get t i)"
  by (simp add: db_get_def db_patch_def)

lemma db_get_delete:
  "db_get (db_delete t j) i = (if i = j then None else db_get t i)"
  by (simp add: db_get_def db_delete_def)

lemma files_getDownloadToken:
  "files (snd (getDownloadToken s now uuid getUrl fileId sessionId)) = files s"
  by (auto simp: getDownloadToken_def rateLimit_def Let_def
           split: option.splits sum.splits if_splits prod.splits)

lemma confirmDownload_success:
  assumes tr: "db_first (\<lambda>r. token r = tok) (downloadTokens s) = Some (tid, tr)"
      and live: "\<not> t_expiresAt tr < now" and unused: "\<not> used tr"
      and fl: "db_get (files s) (t_fileId tr) = Some f" and room: "\<not> limitReached f"
  shows "\<exists>s1. confirmDownload s now tok = (Success, s1)
           \<and> files s1 = db_patch (files s) (t_fileId tr)
                 (\<lambda>x. x\<lparr>downloads := Some (or0 (downloads f) + 1), lastDownloadAt := Some now\<rparr>)
           \<and> downloadTokens s1 = db_patch (downloadTokens s) tid (\<lambda>r. r\<lparr>used := True\<rparr>)"
  using assms
  by (auto simp: confirmDownload_def Let_def split: option.splits prod.splits)


lemma files_tokenRequests: "files (tokenRequests s getUrl reqs) = files s"
  by (induction s getUrl reqs rule: tokenRequests.induct) (simp_all add: files_getDownloadToken)

lemma confirmDownload_file_step:
  assumes "confirmDownload s now tok = (r, s')" and "db_get (files s) i = Some f"
  shows "\<exists>f'. db_get (files s') i = Some f' \<and> maxDownloads f' = maxDownloads f \<and>
           (downloads f' = downloads f \<or>
            (\<not> limitReached f \<and> downloads f' = Some (or0 (downloads f) + 1)))"
  using assms
  by (auto simp: confirmDownload_def Let_def db_get_patch
           split: option.splits prod.splits if_splits)


text \<open>
  One \<open>confirmDownload\<close> and the limit of a file, whatever number that is: the file
  keeps its limit, and its counter is unchanged or was strictly below the limit and grew
  by one; when the token is found, unexpired and unused but the counter has reached the
  limit, the call returns \<open>LIMIT_REACHED\<close>, deletes the token and leaves the files
  table as it was. So a counter that is at most a whole-numbered limit stays so.
\<close>

lemma confirmDownload_limit_step:
  assumes "confirmDownload s now tok = (r, s')"
      and "db_get (files s) i = Some f" and "maxDownloads f = Some m"
  shows "(\<exists>f'. db_get (files s') i = Some f' \<and> maxDownloads f' = Some m \<and>
            (or0 (downloads f') = or0 (downloads f) \<or>
             (real_of_int (or0 (downloads f)) < m
              \<and> or0 (downloads f') = or0 (downloads f) + 1)))
       \<and> (\<forall>tid tr. db_first (\<lambda>r. token r = tok) (downloadTokens s) = Some (tid, tr)
               \<and> \<not> t_expiresAt tr < now \<and> \<not> used tr \<and> t_fileId tr = i
               \<and> m \<le> real_of_int (or0 (downloads f))
             \<longrightarrow> r = LIMIT_REACHED \<and> db_get (downloadTokens s') tid = None
                 \<and> files s' = files s)"
proof
  from confirmDownload_file_step [OF assms(1,2)] assms(3)
  show "\<exists>f'. db_get (files s') i = Some f' \<and> maxDownloads f' = Some m \<and>
            (or0 (downloads f') = or0 (downloads f) \<or>
             (real_of_int (or0 (downloads f)) < m
              \<and> or0 (downloads f') = or0 (downloads f) + 1))"
    by (auto simp: limitReached_def or0_def)
next
  show "\<forall>tid tr. db_first (\<lambda>r. token r = tok) (downloadTokens s) = Some (tid, tr)
               \<and> \<not> t_expiresAt tr < now \<and> \<not> used tr \<and> t_fileId tr = i
               \<and> m \<le> real_of_int (or0 (downloads f))
             \<longrightarrow> r = LIMIT_REACHED \<and> db_get (downloadTokens s') tid = None
                 \<and> files s' = files s"
    using assms
    by (auto simp: confirmDownload_def limitReached_def db_get_delete split: if_splits)
qed

lemma confirmDownload_whole_limit:
  assumes "confirmDownload s now tok = (r, s')"
      and "db_get (files s) i = Some f" and "maxDownloads f = Some (real_of_int k)"
      and "or0 (downloads f) \<le> k"
  shows "\<exists>f'. db_get (files s') i = Some f' \<and> maxDownloads f' = Some (real_of_int k)
           \<and> or0 (downloads f') \<le> k"
  using confirmDownload_limit_step [OF assms(1,2,3)] assms(4) by auto

text \<open>
  Claim C10 fails for a limit that is not a whole number. \<open>saveFile\<close> stores
  \<open>maxDownloads: 0.5\<close> as it is, with \<open>downloads: 0\<close>. The counter 0 has not reached
  0.5, so \<open>getDownloadToken\<close> issues a token, and \<open>confirmDownload\<close> with that token
  finds the limit not reached either, succeeds and writes the counter 1: the counter now
  exceeds the file's \<open>maxDownloads\<close>.
\<close>

theorem fractional_limit_exceeded:
  "getDownloadToken ex_half_db 0 ''tok-1'' ex_getUrl 0 None
     = (TokenIssued (Some ''https://storage/blob-2'') ''tok-1'' 300000, ex_half_issued)
   \<and> confirmDownload ex_half_issued 1000 ''tok-1'' = (Success, ex_half_confirmed)
   \<and> db_get (files ex_half_issued) 0 = Some ex_half_file
   \<and> maxDownloads ex_half_file = Some (1 / 2)
   \<and> counter ex_half_issued 0 = Some 0
   \<and> db_get (files ex_half_confirmed) 0
       = Some (ex_half_file\<lparr>downloads := Some 1, lastDownloadAt := Some 1000\<rparr>)
   \<and> maxDownloads (ex_half_file\<lparr>downloads := Some 1, lastDownloadAt := Some 1000\<rparr>)
       = Some (1 / 2)
   \<and> counter ex_half_confirmed 0 = Some 1
   \<and> (1 / 2 :: real) < real_of_int 1"
  by (simp add: getDownloadToken_def confirmDownload_def rateLimit_def isExpired_def
        limitReached_def or0_def counter_def db_get_def db_first_def db_insert_def
        db_patch_def TOKEN_TTL_def ex_getUrl_def ex_half_db_def ex_half_issued_def
        ex_half_confirmed_def ex_half_file_def ex_token_def Let_def)


text \<open>
  Claim C6, as the code has it. Token requests, any number of them, leave the files table
  and so every download counter unchanged. A first \<open>confirmDownload\<close> with a token that
  is found, unexpired and unused, for a file that exists and is below its limit, succeeds
  and raises that file's counter by exactly one, and no other counter. A second
  \<open>confirmDownload\<close> with the same token changes no counter: it is rejected as
  \<open>TOKEN_USED\<close> while the token has not expired, and as \<open>TOKEN_EXPIRED\<close>, the token
  deleted, once it has, because the expiry check stands before the used check.
\<close>

theorem two_phase_counter_guard:
  "files (tokenRequests s getUrl reqs) = files s
   \<and> (db_first (\<lambda>r. token r = tok) (downloadTokens s) = Some (tid, tr)
        \<and> \<not> t_expiresAt tr < now \<and> \<not> used tr
        \<and> db_get (files s) (t_fileId tr) = Some f \<and> \<not> limitReached f
      \<longrightarrow> (\<exists>s1. confirmDownload s now tok = (Success, s1)
             \<and> counter s1 (t_fileId tr) = Some (or0 (downloads f) + 1)
             \<and> (\<forall>i. i \<noteq> t_fileId tr \<longrightarrow> counter s1 i = counter s i)
             \<and> (\<forall>now2. confirmDownload s1 now2 tok =
                   (if t_expiresAt tr < now2
                    then (TOKEN_EXPIRED, s1\<lparr>downloadTokens := db_delete (downloadTokens s1) tid\<rparr>)
                    else (TOKEN_USED, s1)))))"
proof (intro conjI impI)
  show "files (tokenRequests s getUrl reqs) = files s"
    by (rule files_tokenRequests)
next
  assume a: "db_first (\<lambda>r. token r = tok) (downloadTokens s) = Some (tid, tr)
        \<and> \<not> t_expiresAt tr < now \<and> \<not> used tr
        \<and> db_get (files s) (t_fileId tr) = Some f \<and> \<not> limitReached f"
  then obtain s1 where s1: "confirmDownload s now tok = (Success, s1)"
    and fs: "files s1 = db_patch (files s) (t_fileId tr)
                 (\<lambda>x. x\<lparr>downloads := Some (or0 (downloads f) + 1), lastDownloadAt := Some now\<rparr>)"
    and ts: "downloadTokens s1 = db_patch (downloadTokens s) tid (\<lambda>r. r\<lparr>used := True\<rparr>)"
    using confirmDownload_success [of tok s tid tr now f] by blast
  from a have tk: "token tr = tok" using db_first_SomeD [of "\<lambda>r. token r = tok"] by blast
  have c1: "counter s1 (t_fileId tr) = Some (or0 (downloads f) + 1)"
    using a by (simp add: counter_def fs db_get_patch or0_def)
  have c2: "\<forall>i. i \<noteq> t_fileId tr \<longrightarrow> counter s1 i = counter s i"
    by (simp add: counter_def fs db_get_patch)
  have "db_first (\<lambda>r. token r = tok) (downloadTokens s1) = Some (tid, tr\<lparr>used := True\<rparr>)"
    unfolding ts using a tk by (intro db_first_patch) simp_all
  then have c3: "\<forall>now2. confirmDownload s1 now2 tok =
                   (if t_expiresAt tr < now2
                    then (TOKEN_EXPIRED, s1\<lparr>downloadTokens := db_delete (downloadTokens s1) tid\<rparr>)
                    else (TOKEN_USED, s1))"
    by (simp add: confirmDownload_def)
  from s1 c1 c2 c3
  show "\<exists>s1. confirmDownload s now tok = (Success, s1)
             \<and> counter s1 (t_fileId tr) = Some (or0 (downloads f) + 1)
             \<and> (\<forall>i. i \<noteq> t_fileId tr \<longrightarrow> counter s1 i = counter s i)
             \<and> (\<forall>now2. confirmDownload s1 now2 tok =
                   (if t_expiresAt tr < now2
                    then (TOKEN_EXPIRED, s1\<lparr>downloadTokens := db_delete (downloadTokens s1) tid\<rparr>)
                    else (TOKEN_USED, s1)))"
    by blast
qed


theorem two_phase_counter_guard_witness:
  "db_first (\<lambda>r. token r = ''tok-1'') (downloadTokens ex_issued) = Some (0, ex_token)
   \<and> \<not> t_expiresAt ex_token < 1000 \<and> \<not> used ex_token
   \<and> db_get (files ex_issued) (t_fileId ex_token) = Some ex_file \<and> \<not> limitReached ex_file
   \<and> files (tokenRequests ex_issued ex_getUrl [(20, ''tok-3'', 0, None), (30, ''tok-4'', 0, None)])
       = files ex_issued
   \<and> confirmDownload ex_issued 1000 ''tok-1'' = (Success, ex_confirmed)
   \<and> counter ex_confirmed (t_fileId ex_token) = Some (or0 (downloads ex_file) + 1)
   \<and> confirmDownload ex_confirmed 2000 ''tok-1'' = (TOKEN_USED, ex_confirmed)"
proof -
  have h: "db_first (\<lambda>r. token r = ''tok-1'') (downloadTokens ex_issued) = Some (0, ex_token)
     \<and> \<not> t_expiresAt ex_token < 1000 \<and> \<not> used ex_token
     \<and> db_get (files ex_issued) (t_fileId ex_token) = Some ex_file \<and> \<not> limitReached ex_file"
    by (simp add: db_first_def db_get_def ex_issued_def ex_db_def ex_token_def ex_file_def
          limitReached_def or0_def)
  have c: "confirmDownload ex_issued 1000 ''tok-1'' = (Success, ex_confirmed)"
    by code_simp
  from two_phase_counter_guard [of ex_issued ex_getUrl
         "[(20, ''tok-3'', 0, None), (30, ''tok-4'', 0, None)]" "''tok-1''" 0 ex_token 1000 ex_file] h
  obtain s1 where r: "files (tokenRequests ex_issued ex_getUrl
                        [(20, ''tok-3'', 0, None), (30, ''tok-4'', 0, None)]) = files ex_issued"
    and s1: "confirmDownload ex_issued 1000 ''tok-1'' = (Success, s1)"
            "counter s1 (t_fileId ex_token) = Some (or0 (downloads ex_file) + 1)"
            "\<forall>now2. confirmDownload s1 now2 ''tok-1'' =
                (if t_expiresAt ex_token < now2
                 then (TOKEN_EXPIRED, s1\<lparr>downloadTokens := db_delete (downloadTokens s1) 0\<rparr>)
                 else (TOKEN_USED, s1))"
    by blast
  from s1(1) c have eq: "s1 = ex_confirmed" by simp
  from s1(3) have "confirmDownload s1 2000 ''tok-1'' = (TOKEN_USED, s1)"
    by (simp add: ex_token_def)
  with h r c s1(2) show ?thesis unfolding eq by blast
qed

text \<open>
  The second confirmation of a token that has expired in the meantime is not rejected as
  already used: the token of the example, confirmed at time 1000 and presented again at
  time 300001, is answered with \<open>TOKEN_EXPIRED\<close>.
\<close>

theorem second_confirm_counterexample:
  "confirmDownload ex_issued 1000 ''tok-1'' = (Success, ex_confirmed)
   \<and> fst (confirmDownload ex_confirmed 300001 ''tok-1'') = TOKEN_EXPIRED
   \<and> fst (confirmDownload ex_confirmed 300001 ''tok-1'') \<noteq> TOKEN_USED"
  by code_simp



section \<open>Base64 and the URL-safe key string\<close>

lemma byte_mod: "unat (b :: byte) mod 256 = unat b"
  using unsigned_less [of b, where ?'a = nat] by simp

lemma charCodes_fromCharCode: "charCodes (fromCharCode bs) = bs"
  by (induction bs) (simp_all add: charCodes_def fromCharCode_def byte_mod)

lemma b64val_b64char: "n < 64 \<Longrightarrow> b64val (b64char n) = Some n"
  by (auto simp: b64val_def b64char_def Let_def)

lemma b64char_plain:
  "n < 64 \<Longrightarrow> b64char n \<noteq> CHR ''='' \<and> b64char n \<noteq> CHR ''-'' \<and> b64char n \<noteq> CHR ''_''
     \<and> \<not> ascii_whitespace (b64char n)"
  by (auto simp: b64char_def ascii_whitespace_def char_of_eq_iff take_bit_eq_mod)

lemma pack_bound: "x < m \<Longrightarrow> y < k \<Longrightarrow> x * k + y < m * (k::nat)"
proof -
  assume xm: "x < m" and yk: "y < k"
  from yk have "x * k + y < x * k + k" by simp
  also have "\<dots> = Suc x * k" by simp
  also from xm have "\<dots> \<le> m * k" by (intro mult_le_mono1) simp
  finally show ?thesis .
qed

lemma pack_div: "y < k \<Longrightarrow> (x * k + y) div k = (x::nat)"
  by simp

lemma pack_mod: "y < k \<Longrightarrow> (x * k + y) mod k = (y::nat)"
  by simp

lemma div_bound: "(a::nat) < m * k \<Longrightarrow> a div k < m"
  by (simp add: less_mult_imp_div_less)

lemma sextet_arith:
  fixes a b c :: nat
  assumes "a < 256" "b < 256" "c < 256"
  shows "a div 4 < 64" "a mod 4 * 16 + b div 16 < 64" "b mod 16 * 4 + c div 64 < 64"
        "c mod 64 < 64" "a mod 4 * 16 < 64" "b mod 16 * 4 < 64"
        "a div 4 * 4 + (a mod 4 * 16 + b div 16) div 16 = a"
        "(a mod 4 * 16 + b div 16) mod 16 * 16 + (b mod 16 * 4 + c div 64) div 4 = b"
        "(b mod 16 * 4 + c div 64) mod 4 * 64 + c mod 64 = c"
        "a div 4 * 4 + (a mod 4 * 16) div 16 = a"
        "(a mod 4 * 16 + b div 16) mod 16 * 16 + (b mod 16 * 4) div 4 = b"
proof -
  have b16: "b div 16 < 16" using assms div_bound [of b 16 16] by simp
  have c64: "c div 64 < 4" using assms div_bound [of c 4 64] by simp
  have a4: "a mod 4 < 4" and b4: "b mod 16 < 16" by simp_all
  show "a div 4 < 64" using assms div_bound [of a 64 4] by simp
  show "a mod 4 * 16 + b div 16 < 64" using pack_bound [OF a4 b16] by simp
  show "b mod 16 * 4 + c div 64 < 64" using pack_bound [OF b4 c64] by simp
  show "c mod 64 < 64" by simp
  show "a mod 4 * 16 < 64" using pack_bound [OF a4, of 0 16] by simp
  show "b mod 16 * 4 < 64" using pack_bound [OF b4, of 0 4] by simp
  show "a div 4 * 4 + (a mod 4 * 16 + b div 16) div 16 = a"
    by (simp only: pack_div [OF b16] div_mult_mod_eq)
  show "(a mod 4 * 16 + b div 16) mod 16 * 16 + (b mod 16 * 4 + c div 64) div 4 = b"
    by (simp only: pack_mod [OF b16] pack_div [OF c64] div_mult_mod_eq)
  show "(b mod 16 * 4 + c div 64) mod 4 * 64 + c mod 64 = c"
    by (simp only: pack_mod [OF c64] div_mult_mod_eq)
  show "a div 4 * 4 + (a mod 4 * 16) div 16 = a"
    by simp
  show "(a mod 4 * 16 + b div 16) mod 16 * 16 + (b mod 16 * 4) div 4 = b"
    by (simp only: pack_mod [OF b16]) simp
qed

lemma atob_sextets_quad:
  assumes "a < 256" "b < 256" "c < 256"
  shows "atob_sextets (a div 4 # (a mod 4 * 16 + b div 16) # (b mod 16 * 4 + c div 64)
                         # c mod 64 # sx) = a # b # c # atob_sextets sx"
  by (simp only: atob_sextets.simps sextet_arith(7,8,9) [OF assms] append.simps)

lemma atob_sextets_three:
  assumes "a < 256" "b < 256"
  shows "atob_sextets [a div 4, a mod 4 * 16 + b div 16, b mod 16 * 4] = [a, b]"
  by (simp only: atob_sextets.simps sextet_arith(7,11) [OF assms assms(2)])

lemma atob_sextets_two:
  assumes "a < 256"
  shows "atob_sextets [a div 4, a mod 4 * 16] = [a]"
  by (simp only: atob_sextets.simps sextet_arith(10) [OF assms assms assms])

lemma btoa_codes_shape:
  "\<forall>a\<in>set cs. a < 256 \<Longrightarrow>
     \<exists>sx p. btoa_codes cs = map b64char sx @ replicate p CHR ''=''
       \<and> (\<forall>x\<in>set sx. x < 64) \<and> p \<le> 2 \<and> (length sx + p) mod 4 = 0
       \<and> atob_sextets sx = cs"
proof (induction cs rule: btoa_codes.induct)
  case 1
  have "btoa_codes [] = map b64char [] @ replicate 0 CHR ''=''" by simp
  then show ?case by (intro exI [of _ "[]"] exI [of _ 0]) simp
next
  case (2 a)
  then have a: "a < 256" by simp
  let ?sx = "[a div 4, a mod 4 * 16]"
  have "btoa_codes [a] = map b64char ?sx @ replicate 2 CHR ''=''"
    by (simp add: numeral_2_eq_2)
  moreover have "\<forall>x\<in>set ?sx. x < 64" using sextet_arith(1,5) [OF a a a] by simp
  moreover have "(length ?sx + 2) mod 4 = 0" by simp
  ultimately show ?case using atob_sextets_two [OF a]
    by (intro exI [of _ ?sx] exI [of _ 2]) blast
next
  case (3 a b)
  then have a: "a < 256" and b: "b < 256" by simp_all
  let ?sx = "[a div 4, a mod 4 * 16 + b div 16, b mod 16 * 4]"
  have "btoa_codes [a, b] = map b64char ?sx @ replicate 1 CHR ''=''" by simp
  moreover have "\<forall>x\<in>set ?sx. x < 64" using sextet_arith(1,2,6) [OF a b b] by simp
  moreover have "(length ?sx + 1) mod 4 = 0" by simp
  ultimately show ?case using atob_sextets_three [OF a b]
    by (intro exI [of _ ?sx] exI [of _ 1]) auto
next
  case (4 a b c r)
  then have a: "a < 256" and b: "b < 256" and c: "c < 256" by simp_all
  from 4 obtain sx p where ih: "btoa_codes r = map b64char sx @ replicate p CHR ''=''"
       "\<forall>x\<in>set sx. x < 64" "p \<le> 2" "(length sx + p) mod 4 = 0" "atob_sextets sx = r"
    by auto
  let ?sx = "a div 4 # (a mod 4 * 16 + b div 16) # (b mod 16 * 4 + c div 64) # c mod 64 # sx"
  have "btoa_codes (a # b # c # r) = map b64char ?sx @ replicate p CHR ''=''"
    by (simp add: ih)
  moreover have "\<forall>x\<in>set ?sx. x < 64" using sextet_arith(1,2,3,4) [OF a b c] ih(2) by simp
  moreover have "(length ?sx + p) mod 4 = 0" using ih(4) by simp
  moreover have "atob_sextets ?sx = a # b # c # r" using atob_sextets_quad [OF a b c] ih(5) by simp
  ultimately show ?case using ih(3)
    by (intro exI [of _ ?sx] exI [of _ p]) blast
qed

lemma those_b64val:
  "\<forall>x\<in>set sx. x < 64 \<Longrightarrow> those (map (\<lambda>x. b64val (b64char x)) sx) = Some sx"
  by (induction sx) (simp_all add: b64val_b64char)

lemma no_whitespace:
  "\<forall>x\<in>set sx. x < 64 \<Longrightarrow>
     filter (\<lambda>c. \<not> ascii_whitespace c) (map b64char sx @ replicate p CHR ''='')
       = map b64char sx @ replicate p CHR ''=''"
proof (rule filter_True)
  have "\<not> ascii_whitespace CHR ''=''" by (simp add: ascii_whitespace_def)
  then show "\<forall>c\<in>set (map b64char sx @ replicate p CHR ''=''). \<not> ascii_whitespace c"
    if "\<forall>x\<in>set sx. x < 64" using that by (auto simp: b64char_plain)
qed

lemma remove_padding_shape:
  assumes sx: "\<forall>x\<in>set sx. x < 64" and p: "p \<le> 2" and len: "(length sx + p) mod 4 = 0"
  shows "remove_padding (map b64char sx @ replicate p CHR ''='') = map b64char sx"
proof -
  consider "p = 0" | "p = 1" | "p = 2" using p by linarith
  then show ?thesis
  proof cases
    case 1
    show ?thesis
    proof (cases "rev sx")
      case Nil
      with 1 show ?thesis by (simp add: remove_padding_def)
    next
      case (Cons x r)
      then have x: "x < 64" using sx by (metis list.set_intros(1) set_rev)
      from Cons have "rev (map b64char sx) = b64char x # map b64char r" by (simp add: rev_map)
      with 1 x show ?thesis
        by (cases r) (simp_all add: remove_padding_def b64char_plain)
    qed
  next
    case 2
    with len have "sx \<noteq> []" by auto
    then obtain x r where xr: "rev sx = x # r" by (cases "rev sx") auto
    then have x: "x < 64" using sx by (metis list.set_intros(1) set_rev)
    from xr have "sx = rev r @ [x]" by (metis rev.simps(2) rev_rev_ident)
    with 2 len x show ?thesis
      by (simp add: remove_padding_def b64char_plain rev_map)
  next
    case 3
    with len show ?thesis
      by (simp add: remove_padding_def numeral_2_eq_2 rev_map)
  qed
qed

lemma length_not_1:
  assumes "p \<le> 2" "(length (sx :: nat list) + p) mod 4 = 0"
  shows "length (map b64char sx) mod 4 \<noteq> 1"
  using assms by simp presburger

lemma atob_btoa: "atob (btoa s) = Some s"
proof -
  have "\<forall>a\<in>set (map of_char s :: nat list). a < 256" by simp
  from btoa_codes_shape [OF this]
  obtain sx p where shape0: "btoa_codes (map of_char s) = map b64char sx @ replicate p CHR ''=''"
    and sx: "\<forall>x\<in>set sx. x < 64" and p: "p \<le> 2" and len: "(length sx + p) mod 4 = 0"
    and sxs: "atob_sextets sx = map of_char s"
    by (elim exE conjE)
  from shape0 have shape: "btoa s = map b64char sx @ replicate p CHR ''=''"
    by (simp add: btoa_def)
  show ?thesis
    using length_not_1 [OF p len]
    unfolding atob_def shape no_whitespace [OF sx] remove_padding_shape [OF sx p len] Let_def
    by (simp add: those_b64val [OF sx] sxs comp_def)
qed

lemma stripTrailingEq_append:
  "\<forall>c\<in>set xs. c \<noteq> CHR ''='' \<Longrightarrow> stripTrailingEq (xs @ replicate p CHR ''='') = xs"
proof -
  assume xs: "\<forall>c\<in>set xs. c \<noteq> CHR ''=''"
  have "dropWhile (\<lambda>c. c = CHR ''='') (replicate p CHR ''='' @ rev xs)
          = dropWhile (\<lambda>c. c = CHR ''='') (rev xs)"
    by (induction p) simp_all
  also have "\<dots> = rev xs" using xs by (cases "rev xs") auto
  finally show ?thesis by (simp add: stripTrailingEq_def)
qed

lemma pad4_restore:
  "(length xs + p) mod 4 = 0 \<Longrightarrow> p < 4 \<Longrightarrow> pad4 xs = xs @ replicate p CHR ''=''"
proof (induction p arbitrary: xs)
  case 0
  then show ?case by (subst pad4.simps) simp
next
  case (Suc q)
  from Suc.prems have ne: "length xs mod 4 \<noteq> 0" by presburger
  from Suc.prems have "(length (xs @ ''='') + q) mod 4 = 0" "q < 4" by simp_all
  then have "pad4 (xs @ ''='') = (xs @ ''='') @ replicate q CHR ''=''" by (rule Suc.IH)
  with ne show ?case by (subst pad4.simps) (simp add: replicate_app_Cons_same)
qed

lemma replaceAll_back:
  "\<forall>c\<in>set xs. c \<noteq> CHR ''-'' \<and> c \<noteq> CHR ''_'' \<Longrightarrow>
     replaceAll CHR ''_'' CHR ''/'' (replaceAll CHR ''-'' CHR ''+''
       (replaceAll CHR ''/'' CHR ''_'' (replaceAll CHR ''+'' CHR ''-'' xs))) = xs"
  by (induction xs) (auto simp: replaceAll_def)

lemma replaceAll_no_eq:
  "\<forall>c\<in>set xs. c \<noteq> CHR ''='' \<Longrightarrow>
     \<forall>c\<in>set (replaceAll CHR ''/'' CHR ''_'' (replaceAll CHR ''+'' CHR ''-'' xs)). c \<noteq> CHR ''=''"
  by (auto simp: replaceAll_def)

lemma replaceAll_padded:
  "replaceAll CHR ''/'' CHR ''_'' (replaceAll CHR ''+'' CHR ''-'' (xs @ replicate p CHR ''=''))
     = replaceAll CHR ''/'' CHR ''_'' (replaceAll CHR ''+'' CHR ''-'' xs) @ replicate p CHR ''=''"
  by (simp add: replaceAll_def)

lemma fromUrlSafe_toUrlSafe: "fromUrlSafe (toUrlSafe (btoa s)) = btoa s"
proof -
  have "\<forall>a\<in>set (map of_char s :: nat list). a < 256" by simp
  from btoa_codes_shape [OF this]
  obtain sx p where shape0: "btoa_codes (map of_char s) = map b64char sx @ replicate p CHR ''=''"
    and sx: "\<forall>x\<in>set sx. x < 64" and p: "p \<le> 2" and len: "(length sx + p) mod 4 = 0"
    by (elim exE conjE)
  from shape0 have shape: "btoa s = map b64char sx @ replicate p CHR ''=''"
    by (simp add: btoa_def)
  have plain: "\<forall>c\<in>set (map b64char sx). c \<noteq> CHR ''='' \<and> c \<noteq> CHR ''-'' \<and> c \<noteq> CHR ''_''"
    using sx b64char_plain by auto
  then have p1: "\<forall>c\<in>set (map b64char sx). c \<noteq> CHR ''=''"
    and p2: "\<forall>c\<in>set (map b64char sx). c \<noteq> CHR ''-'' \<and> c \<noteq> CHR ''_''" by blast+
  have safe: "toUrlSafe (btoa s)
                = replaceAll CHR ''/'' CHR ''_'' (replaceAll CHR ''+'' CHR ''-'' (map b64char sx))"
    unfolding toUrlSafe_def shape replaceAll_padded
    by (rule stripTrailingEq_append [OF replaceAll_no_eq [OF p1]])
  have "fromUrlSafe (toUrlSafe (btoa s)) = pad4 (map b64char sx)"
    by (simp only: fromUrlSafe_def safe replaceAll_back [OF p2])
  also have "\<dots> = map b64char sx @ replicate p CHR ''=''"
    using len p by (intro pad4_restore) simp_all
  finally show ?thesis by (simp only: shape)
qed


section \<open>The cipher module and the key transport\<close>

lemma getRandomValues_fst: "fst (getRandomValues n rng) = map rng [0..<n]"
  by (simp add: getRandomValues_def)

lemma generateKey_props:
  "extractable (fst (generateKey rng)) \<and> usages (fst (generateKey rng)) = [Encrypt, Decrypt]
     \<and> length (material (fst (generateKey rng))) = 32"
  by (simp add: generateKey_def getRandomValues_def KEY_LENGTH_def)

lemma ex_key_length: "aes_length (material ex_key)"
  using generateKey_props [of counting] by (simp add: ex_key_def aes_length_def)

lemma exportKeyString_extractable: "exportKeyString pf K = Inr ks \<Longrightarrow> extractable K"
  by (simp add: exportKeyString_def exportKey_jwk_def split: if_splits)

lemma key_transport:
  assumes "jwk_json_roundtrip pf" "extractable K" "aes_length (material K)"
      and "Decrypt \<in> set (usages K)"
  shows "\<exists>ks. exportKeyString pf K = Inr ks
           \<and> importKeyString pf ks
               = Inr \<lparr>material = material K, extractable = True, usages = [Decrypt]\<rparr>"
  using assms
  by (simp add: exportKeyString_def exportKey_jwk_def importKeyString_def
        fromUrlSafe_toUrlSafe atob_btoa jwk_json_roundtrip_def importKey_jwk_def)

lemma atob_bytes: "map_option charCodes (atob (btoa (fromCharCode b))) = Some b"
  by (simp add: atob_btoa charCodes_fromCharCode)

lemma encryptFile_decryptFile:
  assumes "aead_correct pf" "jwk_json_roundtrip pf" "extractable K" "aes_length (material K)"
      and "Decrypt \<in> set (usages K)" "Encrypt \<in> set (usages K)"
  shows "\<exists>ef. fst (encryptFile pf rng P K) = Inr ef
           \<and> decryptFile pf (ef_encryptedBlob ef) (ef_keyString ef) (ef_iv ef) = Inr P
           \<and> exportKeyString pf K = Inr (ef_keyString ef)"
proof -
  from key_transport [OF assms(2,3,4,5)] obtain ks where
    ks: "exportKeyString pf K = Inr ks"
        "importKeyString pf ks = Inr \<lparr>material = material K, extractable = True, usages = [Decrypt]\<rparr>"
    by blast
  from assms(1) have dec: "\<And>iv. aes_gcm_decrypt pf (material K) iv (aes_gcm_encrypt pf (material K) iv P) = Some P"
    by (simp add: aead_correct_def)
  show ?thesis
    using assms(6) ks dec
    by (simp add: encryptFile_def getRandomValues_def subtle_encrypt_def decryptFile_def
          atob_btoa charCodes_fromCharCode subtle_decrypt_def)
qed

text \<open>
  Claim C1. On a platform whose AES-GCM decrypts what it encrypted and whose JSON reads
  back the exported key, for every plaintext \<open>P\<close>, every freshly generated key and every
  state of the random source: \<open>encryptFile\<close> succeeds, and \<open>decryptFile\<close> applied to
  the blob, the URL-safe key string and the Base64 IV string it returned yields exactly
  \<open>P\<close>. The key rebuilt from the key string decrypts whatever the generated key
  encrypted.
\<close>

theorem file_round_trip:
  assumes "aead_correct pf" and "jwk_json_roundtrip pf"
  shows "\<exists>ef. fst (encryptFile pf rng P (fst (generateKey rng0))) = Inr ef
           \<and> decryptFile pf (ef_encryptedBlob ef) (ef_keyString ef) (ef_iv ef) = Inr P
           \<and> (\<exists>K'. importKeyString pf (ef_keyString ef) = Inr K'
                 \<and> (\<forall>iv' Q c. subtle_encrypt pf (fst (generateKey rng0)) iv' Q = Inr c
                        \<longrightarrow> subtle_decrypt pf K' iv' c = Inr Q))"
proof -
  let ?K = "fst (generateKey rng0)"
  have K: "extractable ?K" "aes_length (material ?K)" "Decrypt \<in> set (usages ?K)"
          "Encrypt \<in> set (usages ?K)"
    using generateKey_props [of rng0] by (simp_all add: aes_length_def)
  from encryptFile_decryptFile [OF assms K, of rng P] obtain ef where
    ef: "fst (encryptFile pf rng P ?K) = Inr ef"
        "decryptFile pf (ef_encryptedBlob ef) (ef_keyString ef) (ef_iv ef) = Inr P"
        "exportKeyString pf ?K = Inr (ef_keyString ef)"
    by blast
  from key_transport [OF assms(2) K(1,2,3)] ef(3)
  have imp: "importKeyString pf (ef_keyString ef)
               = Inr \<lparr>material = material ?K, extractable = True, usages = [Decrypt]\<rparr>"
    by auto
  have "\<forall>iv' Q c. subtle_encrypt pf ?K iv' Q = Inr c
          \<longrightarrow> subtle_decrypt pf \<lparr>material = material ?K, extractable = True, usages = [Decrypt]\<rparr> iv' c = Inr Q"
    using assms(1) by (auto simp: subtle_encrypt_def subtle_decrypt_def aead_correct_def split: if_splits)
  with ef imp show ?thesis by blast
qed

lemma length_toy_tag: "length (toy_tag k iv) = 16"
  by (simp add: toy_tag_def)

lemma toy_aead_correct: "aead_correct toy"
  by (simp add: aead_correct_def toy_def toy_decrypt_def toy_encrypt_def length_toy_tag
        comp_def)

lemma usage_chars: "map char_usage (takeWhile (\<lambda>x. x \<noteq> CHR '':'') (map usage_char us @ CHR '':'' # r)) = us
    \<and> dropWhile (\<lambda>x. x \<noteq> CHR '':'') (map usage_char us @ CHR '':'' # r) = CHR '':'' # r"
proof (induction us)
  case Nil
  show ?case by simp
next
  case (Cons u us)
  then show ?case by (cases u) simp_all
qed

lemma toy_jwk_json_roundtrip: "jwk_json_roundtrip toy"
  by (simp add: jwk_json_roundtrip_def toy_def toy_jwk_stringify_def toy_jwk_parse_def
        usage_chars charCodes_fromCharCode)

lemma toy_tag_16_bytes: "tag_16_bytes toy"
  by (simp add: tag_16_bytes_def toy_def toy_encrypt_def length_toy_tag)

lemma toy_iv_separates: "iv_separates toy"
  by (simp add: iv_separates_def toy_def toy_encrypt_def toy_tag_def)

theorem file_round_trip_witness:
  "aead_correct toy \<and> jwk_json_roundtrip toy
   \<and> fst (encryptFile toy counting ex_plain (fst (generateKey counting))) = Inr ex_encrypted
   \<and> decryptFile toy (ef_encryptedBlob ex_encrypted) (ef_keyString ex_encrypted)
         (ef_iv ex_encrypted) = Inr ex_plain"
proof -
  have e: "fst (encryptFile toy counting ex_plain (fst (generateKey counting))) = Inr ex_encrypted"
    by code_simp
  from file_round_trip [OF toy_aead_correct toy_jwk_json_roundtrip, of counting ex_plain counting] e
  have "decryptFile toy (ef_encryptedBlob ex_encrypted) (ef_keyString ex_encrypted)
          (ef_iv ex_encrypted) = Inr ex_plain"
    by auto
  with e toy_aead_correct toy_jwk_json_roundtrip show ?thesis by simp
qed

lemma btoa_inj: "btoa a = btoa b \<Longrightarrow> a = b"
proof -
  assume "btoa a = btoa b"
  then have "atob (btoa a) = atob (btoa b)" by (rule arg_cong)
  then show "a = b" by (simp only: atob_btoa option.inject)
qed

lemma fromCharCode_inj: "fromCharCode a = fromCharCode b \<Longrightarrow> a = b"
proof -
  assume "fromCharCode a = fromCharCode b"
  then have "charCodes (fromCharCode a) = charCodes (fromCharCode b)" by (rule arg_cong)
  then show "a = b" by (simp only: charCodes_fromCharCode)
qed

lemma encryptMetadata_eq:
  "Encrypt \<in> set (usages K) \<Longrightarrow>
     encryptMetadata pf rng M K =
       (Inr (btoa (fromCharCode (map rng [0..<12]
               @ aes_gcm_encrypt pf (material K) (map rng [0..<12]) (json_encode pf M)))),
        (\<lambda>i. rng (12 + i)))"
  by (simp add: encryptMetadata_def getRandomValues_def subtle_encrypt_def IV_LENGTH_def)

lemma decryptMetadataWithKey_envelope:
  assumes "length iv = 12"
  shows "decryptMetadataWithKey pf (btoa (fromCharCode (iv @ ct))) K' =
           (case subtle_decrypt pf K' iv ct of Inl e \<Rightarrow> Inl e | Inr d \<Rightarrow> json_decode pf d)"
  using assms
  by (simp add: decryptMetadataWithKey_def atob_btoa charCodes_fromCharCode IV_LENGTH_def)

text \<open>
  Claim C2. For every metadata object \<open>M\<close> that JSON reads back as written and every
  key usable for both directions, the string produced by \<open>encryptMetadata\<close> decrypts to
  \<open>M\<close> with \<open>decryptMetadataWithKey\<close> and the key itself, and with
  \<open>decryptMetadata\<close> and the key's transport string, whenever the key has one.
\<close>

theorem metadata_round_trip:
  assumes "aead_correct pf" and "jwk_json_roundtrip pf"
      and "json_decode pf (json_encode pf M) = Inr M"
      and "Encrypt \<in> set (usages K)" and "Decrypt \<in> set (usages K)"
  shows "\<exists>env. fst (encryptMetadata pf rng M K) = Inr env
           \<and> decryptMetadataWithKey pf env K = Inr M
           \<and> (\<forall>ks. exportKeyString pf K = Inr ks \<and> aes_length (material K)
                  \<longrightarrow> decryptMetadata pf env ks = Inr M)"
proof -
  let ?iv = "map rng [0..<12]"
  let ?ct = "aes_gcm_encrypt pf (material K) ?iv (json_encode pf M)"
  let ?env = "btoa (fromCharCode (?iv @ ?ct))"
  have env: "fst (encryptMetadata pf rng M K) = Inr ?env"
    by (simp add: encryptMetadata_eq [OF assms(4)])
  from assms(1) have dec: "aes_gcm_decrypt pf (material K) ?iv ?ct = Some (json_encode pf M)"
    by (simp add: aead_correct_def)
  have d1: "decryptMetadataWithKey pf ?env K = Inr M"
    using assms(3,5) dec by (simp add: decryptMetadataWithKey_envelope subtle_decrypt_def)
  have d2: "\<forall>ks. exportKeyString pf K = Inr ks \<and> aes_length (material K)
              \<longrightarrow> decryptMetadata pf ?env ks = Inr M"
  proof (intro allI impI)
    fix ks
    assume a: "exportKeyString pf K = Inr ks \<and> aes_length (material K)"
    then have x: "extractable K" using exportKeyString_extractable by blast
    from key_transport [OF assms(2) x _ assms(5)] a
    have "importKeyString pf ks
            = Inr \<lparr>material = material K, extractable = True, usages = [Decrypt]\<rparr>"
      by auto
    then show "decryptMetadata pf ?env ks = Inr M"
      using assms(3) dec
      by (simp add: decryptMetadata_def decryptMetadataWithKey_envelope subtle_decrypt_def)
  qed
  from env d1 d2 show ?thesis by blast
qed

theorem metadata_round_trip_witness:
  "aead_correct toy \<and> jwk_json_roundtrip toy
   \<and> json_decode toy (json_encode toy ex_meta) = Inr ex_meta
   \<and> Encrypt \<in> set (usages ex_key) \<and> Decrypt \<in> set (usages ex_key)
   \<and> fst (encryptMetadata toy counting ex_meta ex_key) = Inr ex_envelope
   \<and> decryptMetadataWithKey toy ex_envelope ex_key = Inr ex_meta
   \<and> exportKeyString toy ex_key = Inr (ef_keyString ex_encrypted)
   \<and> aes_length (material ex_key)
   \<and> decryptMetadata toy ex_envelope (ef_keyString ex_encrypted) = Inr ex_meta"
proof -
  have j: "json_decode toy (json_encode toy ex_meta) = Inr ex_meta" by code_simp
  have k: "Encrypt \<in> set (usages ex_key)" "Decrypt \<in> set (usages ex_key)"
    using generateKey_props [of counting] by (simp_all add: ex_key_def)
  have e: "fst (encryptMetadata toy counting ex_meta ex_key) = Inr ex_envelope" by code_simp
  have x: "exportKeyString toy ex_key = Inr (ef_keyString ex_encrypted)" by code_simp
  from metadata_round_trip [OF toy_aead_correct toy_jwk_json_roundtrip j k, of counting]
       e x ex_key_length
  have "decryptMetadataWithKey toy ex_envelope ex_key = Inr ex_meta
        \<and> decryptMetadata toy ex_envelope (ef_keyString ex_encrypted) = Inr ex_meta"
    by auto
  with toy_aead_correct toy_jwk_json_roundtrip j k e x ex_key_length show ?thesis by simp
qed

text \<open>
  Claim C8. The string returned by \<open>encryptMetadata\<close> is the Base64 encoding of the
  12 bytes of the freshly drawn IV followed by the AES-GCM ciphertext (16 bytes longer
  than the serialized metadata, when the tag is 16 bytes); \<open>decryptMetadataWithKey\<close>
  and \<open>decryptMetadata\<close> hand exactly that IV and that ciphertext to the decryption,
  and on any input they split the first 12 decoded bytes from the remainder.
\<close>

theorem metadata_envelope_wire_format:
  assumes "Encrypt \<in> set (usages K)"
  shows "\<exists>iv ct. fst (encryptMetadata pf rng M K) = Inr (btoa (fromCharCode (iv @ ct)))
           \<and> iv = fst (getRandomValues 12 rng) \<and> length iv = 12
           \<and> ct = aes_gcm_encrypt pf (material K) iv (json_encode pf M)
           \<and> (tag_16_bytes pf \<longrightarrow> length ct = length (json_encode pf M) + 16)
           \<and> map_option charCodes (atob (btoa (fromCharCode (iv @ ct)))) = Some (iv @ ct)
           \<and> (\<forall>K'. decryptMetadataWithKey pf (btoa (fromCharCode (iv @ ct))) K' =
                  (case subtle_decrypt pf K' iv ct of
                     Inl e \<Rightarrow> Inl e | Inr d \<Rightarrow> json_decode pf d))
           \<and> (\<forall>ks. decryptMetadata pf (btoa (fromCharCode (iv @ ct))) ks =
                  (case importKeyString pf ks of
                     Inl e \<Rightarrow> Inl e
                   | Inr K' \<Rightarrow>
                       (case subtle_decrypt pf K' iv ct of
                          Inl e \<Rightarrow> Inl e | Inr d \<Rightarrow> json_decode pf d)))
           \<and> (\<forall>s b K'. atob s = Some b \<longrightarrow>
                  decryptMetadataWithKey pf s K' =
                    (case subtle_decrypt pf K' (take 12 (charCodes b)) (drop 12 (charCodes b)) of
                       Inl e \<Rightarrow> Inl e | Inr d \<Rightarrow> json_decode pf d))"
proof -
  let ?iv = "fst (getRandomValues 12 rng)"
  let ?ct = "aes_gcm_encrypt pf (material K) ?iv (json_encode pf M)"
  have len: "length ?iv = 12" by (simp add: getRandomValues_def)
  have 1: "fst (encryptMetadata pf rng M K) = Inr (btoa (fromCharCode (?iv @ ?ct)))"
    by (simp add: encryptMetadata_eq [OF assms] getRandomValues_def)
  have 2: "tag_16_bytes pf \<longrightarrow> length ?ct = length (json_encode pf M) + 16"
    by (simp add: tag_16_bytes_def)
  have 3: "map_option charCodes (atob (btoa (fromCharCode (?iv @ ?ct)))) = Some (?iv @ ?ct)"
    by (rule atob_bytes)
  have 4: "\<forall>K'. decryptMetadataWithKey pf (btoa (fromCharCode (?iv @ ?ct))) K' =
                  (case subtle_decrypt pf K' ?iv ?ct of
                     Inl e \<Rightarrow> Inl e | Inr d \<Rightarrow> json_decode pf d)"
    using decryptMetadataWithKey_envelope [OF len] by blast
  have 5: "\<forall>ks. decryptMetadata pf (btoa (fromCharCode (?iv @ ?ct))) ks =
                  (case importKeyString pf ks of
                     Inl e \<Rightarrow> Inl e
                   | Inr K' \<Rightarrow>
                       (case subtle_decrypt pf K' ?iv ?ct of
                          Inl e \<Rightarrow> Inl e | Inr d \<Rightarrow> json_decode pf d))"
    by (simp add: decryptMetadata_def decryptMetadataWithKey_envelope [OF len]
          split: sum.splits)
  have 6: "\<forall>s b K'. atob s = Some b \<longrightarrow>
                  decryptMetadataWithKey pf s K' =
                    (case subtle_decrypt pf K' (take 12 (charCodes b)) (drop 12 (charCodes b)) of
                       Inl e \<Rightarrow> Inl e | Inr d \<Rightarrow> json_decode pf d)"
    by (simp add: decryptMetadataWithKey_def IV_LENGTH_def Let_def)
  from len 1 2 3 4 5 6 show ?thesis by blast
qed

theorem metadata_envelope_wire_format_witness:
  "Encrypt \<in> set (usages ex_key) \<and> tag_16_bytes toy
   \<and> fst (encryptMetadata toy counting ex_meta ex_key) = Inr ex_envelope
   \<and> map_option (take 12 \<circ> charCodes) (atob ex_envelope) = Some (fst (getRandomValues 12 counting))
   \<and> map_option (length \<circ> drop 12 \<circ> charCodes) (atob ex_envelope)
       = Some (length (json_encode toy ex_meta) + 16)"
proof -
  have k: "Encrypt \<in> set (usages ex_key)"
    using generateKey_props [of counting] by (simp add: ex_key_def)
  have e: "fst (encryptMetadata toy counting ex_meta ex_key) = Inr ex_envelope" by code_simp
  from metadata_envelope_wire_format [OF k, of toy counting ex_meta]
  obtain iv ct where f: "fst (encryptMetadata toy counting ex_meta ex_key)
                           = Inr (btoa (fromCharCode (iv @ ct)))"
     "iv = fst (getRandomValues 12 counting)" "length iv = 12"
     "tag_16_bytes toy \<longrightarrow> length ct = length (json_encode toy ex_meta) + 16"
     "map_option charCodes (atob (btoa (fromCharCode (iv @ ct)))) = Some (iv @ ct)"
    by blast
  from f(1) e have env: "btoa (fromCharCode (iv @ ct)) = ex_envelope" by simp
  from f(5) obtain b where b: "atob ex_envelope = Some b" "charCodes b = iv @ ct"
    unfolding env by auto
  from f(4) toy_tag_16_bytes have "length ct = length (json_encode toy ex_meta) + 16" by simp
  with k e b f(2,3) toy_tag_16_bytes show ?thesis by simp
qed

lemma encryptFile_eq:
  "Encrypt \<in> set (usages K) \<Longrightarrow> exportKeyString pf K = Inr ks \<Longrightarrow>
     encryptFile pf rng P K =
       (Inr \<lparr>ef_encryptedBlob = aes_gcm_encrypt pf (material K) (map rng [0..<12]) P,
             ef_iv = btoa (fromCharCode (map rng [0..<12])),
             ef_ivBytes = map rng [0..<12],
             ef_keyString = ks\<rparr>,
        (\<lambda>i. rng (12 + i)))"
  by (simp add: encryptFile_def getRandomValues_def subtle_encrypt_def IV_LENGTH_def)

lemma exportKeyString_Inr: "extractable K \<Longrightarrow> \<exists>ks. exportKeyString pf K = Inr ks"
  by (simp add: exportKeyString_def exportKey_jwk_def)

lemma map_upt_shift: "map (\<lambda>i. rng (12 + i)) [0..<12] = map rng [12..<24]"
proof -
  have "[12..<24] = map (\<lambda>i. 12 + i) [0..<12]"
    by (simp add: map_add_upt add.commute [of 12])
  then show ?thesis by (simp only: map_map comp_def)
qed

text \<open>
  Claim C5. \<open>encryptFile\<close> and \<open>encryptMetadata\<close> each take 12 fresh bytes from the
  random source, advance it, encrypt under exactly these bytes as the IV and put exactly
  these bytes into the envelope: in one upload the file is encrypted under bytes 0..11 of
  the stream and its metadata under bytes 12..23. Encrypting the same plaintext under the
  same key with two draws that differ gives two file envelopes, and two metadata
  envelopes, that carry and were encrypted under different IVs; the envelopes differ, and
  so do their ciphertexts when AES-GCM maps different IVs to different ciphertexts.
\<close>

theorem fresh_iv_per_envelope:
  assumes "Encrypt \<in> set (usages K)" and "extractable K"
  shows "(\<exists>ef env.
            encryptFile pf rng P K = (Inr ef, snd (getRandomValues 12 rng))
          \<and> ef_ivBytes ef = map rng [0..<12]
          \<and> atob (ef_iv ef) = Some (fromCharCode (map rng [0..<12]))
          \<and> ef_encryptedBlob ef = aes_gcm_encrypt pf (material K) (map rng [0..<12]) P
          \<and> encryptMetadata pf (snd (getRandomValues 12 rng)) M K
               = (Inr env, snd (getRandomValues 24 rng))
          \<and> map_option charCodes (atob env)
               = Some (map rng [12..<24]
                       @ aes_gcm_encrypt pf (material K) (map rng [12..<24]) (json_encode pf M)))
       \<and> (\<forall>rngA rngB. map rngA [0..<12] \<noteq> map rngB [0..<12] \<longrightarrow>
            (\<exists>e1 e2 m1 m2 c1 c2.
                fst (encryptFile pf rngA P K) = Inr e1 \<and> fst (encryptFile pf rngB P K) = Inr e2
              \<and> ef_ivBytes e1 = map rngA [0..<12] \<and> ef_ivBytes e2 = map rngB [0..<12]
              \<and> ef_encryptedBlob e1 = aes_gcm_encrypt pf (material K) (map rngA [0..<12]) P
              \<and> ef_encryptedBlob e2 = aes_gcm_encrypt pf (material K) (map rngB [0..<12]) P
              \<and> ef_iv e1 \<noteq> ef_iv e2
              \<and> (iv_separates pf \<longrightarrow> ef_encryptedBlob e1 \<noteq> ef_encryptedBlob e2)
              \<and> fst (encryptMetadata pf rngA M K) = Inr m1
              \<and> fst (encryptMetadata pf rngB M K) = Inr m2
              \<and> c1 = aes_gcm_encrypt pf (material K) (map rngA [0..<12]) (json_encode pf M)
              \<and> c2 = aes_gcm_encrypt pf (material K) (map rngB [0..<12]) (json_encode pf M)
              \<and> map_option charCodes (atob m1) = Some (map rngA [0..<12] @ c1)
              \<and> map_option charCodes (atob m2) = Some (map rngB [0..<12] @ c2)
              \<and> m1 \<noteq> m2
              \<and> (iv_separates pf \<longrightarrow> c1 \<noteq> c2)))"
proof (intro conjI allI impI)
  from exportKeyString_Inr [OF assms(2)] obtain ks where ks: "exportKeyString pf K = Inr ks"
    by blast
  let ?ef = "\<lparr>ef_encryptedBlob = aes_gcm_encrypt pf (material K) (map rng [0..<12]) P,
             ef_iv = btoa (fromCharCode (map rng [0..<12])),
             ef_ivBytes = map rng [0..<12],
             ef_keyString = ks\<rparr>"
  let ?ct = "aes_gcm_encrypt pf (material K) (map rng [12..<24]) (json_encode pf M)"
  have 1: "encryptFile pf rng P K = (Inr ?ef, snd (getRandomValues 12 rng))"
    by (simp add: encryptFile_eq [OF assms(1) ks] getRandomValues_def)
  have 2: "encryptMetadata pf (snd (getRandomValues 12 rng)) M K
             = (Inr (btoa (fromCharCode (map rng [12..<24] @ ?ct))), snd (getRandomValues 24 rng))"
    by (simp add: encryptMetadata_eq [OF assms(1)] getRandomValues_def map_upt_shift)
  have 3: "atob (ef_iv ?ef) = Some (fromCharCode (map rng [0..<12]))"
    by (simp add: atob_btoa)
  have 4: "map_option charCodes (atob (btoa (fromCharCode (map rng [12..<24] @ ?ct))))
             = Some (map rng [12..<24] @ ?ct)"
    by (rule atob_bytes)
  from 1 2 3 4
  show "\<exists>ef env.
            encryptFile pf rng P K = (Inr ef, snd (getRandomValues 12 rng))
          \<and> ef_ivBytes ef = map rng [0..<12]
          \<and> atob (ef_iv ef) = Some (fromCharCode (map rng [0..<12]))
          \<and> ef_encryptedBlob ef = aes_gcm_encrypt pf (material K) (map rng [0..<12]) P
          \<and> encryptMetadata pf (snd (getRandomValues 12 rng)) M K
               = (Inr env, snd (getRandomValues 24 rng))
          \<and> map_option charCodes (atob env)
               = Some (map rng [12..<24]
                       @ aes_gcm_encrypt pf (material K) (map rng [12..<24]) (json_encode pf M))"
    by (intro exI [of _ ?ef] exI [of _ "btoa (fromCharCode (map rng [12..<24] @ ?ct))"]) simp
next
  fix rngA rngB :: rng
  assume d: "map rngA [0..<12] \<noteq> map rngB [0..<12]"
  from exportKeyString_Inr [OF assms(2)] obtain ks where ks: "exportKeyString pf K = Inr ks"
    by blast
  let ?e = "\<lambda>r. \<lparr>ef_encryptedBlob = aes_gcm_encrypt pf (material K) (map r [0..<12]) P,
             ef_iv = btoa (fromCharCode (map r [0..<12])),
             ef_ivBytes = map r [0..<12],
             ef_keyString = ks\<rparr>"
  let ?c = "\<lambda>r. aes_gcm_encrypt pf (material K) (map r [0..<12]) (json_encode pf M)"
  let ?m = "\<lambda>r. btoa (fromCharCode (map r [0..<12] @ ?c r))"
  have e: "fst (encryptFile pf rngA P K) = Inr (?e rngA)" "fst (encryptFile pf rngB P K) = Inr (?e rngB)"
    by (simp_all add: encryptFile_eq [OF assms(1) ks])
  have m: "fst (encryptMetadata pf rngA M K) = Inr (?m rngA)"
          "fst (encryptMetadata pf rngB M K) = Inr (?m rngB)"
    by (simp_all add: encryptMetadata_eq [OF assms(1)])
  have f: "ef_ivBytes (?e rngA) = map rngA [0..<12]" "ef_ivBytes (?e rngB) = map rngB [0..<12]"
          "ef_encryptedBlob (?e rngA) = aes_gcm_encrypt pf (material K) (map rngA [0..<12]) P"
          "ef_encryptedBlob (?e rngB) = aes_gcm_encrypt pf (material K) (map rngB [0..<12]) P"
    by simp_all
  have iv: "ef_iv (?e rngA) \<noteq> ef_iv (?e rngB)"
  proof
    assume "ef_iv (?e rngA) = ef_iv (?e rngB)"
    then have "btoa (fromCharCode (map rngA [0..<12])) = btoa (fromCharCode (map rngB [0..<12]))"
      by simp
    then have "fromCharCode (map rngA [0..<12]) = fromCharCode (map rngB [0..<12])"
      by (rule btoa_inj)
    then have "map rngA [0..<12] = map rngB [0..<12]" by (rule fromCharCode_inj)
    with d show False by simp
  qed
  have blob: "iv_separates pf \<longrightarrow> ef_encryptedBlob (?e rngA) \<noteq> ef_encryptedBlob (?e rngB)"
    using d by (simp add: iv_separates_def)
  have dec: "map_option charCodes (atob (?m rngA)) = Some (map rngA [0..<12] @ ?c rngA)"
            "map_option charCodes (atob (?m rngB)) = Some (map rngB [0..<12] @ ?c rngB)"
    by (rule atob_bytes)+
  have ne: "?m rngA \<noteq> ?m rngB"
  proof
    assume "?m rngA = ?m rngB"
    then have "fromCharCode (map rngA [0..<12] @ ?c rngA)
             = fromCharCode (map rngB [0..<12] @ ?c rngB)"
      by (rule btoa_inj)
    then have "map rngA [0..<12] @ ?c rngA = map rngB [0..<12] @ ?c rngB"
      by (rule fromCharCode_inj)
    then have "map rngA [0..<12] = map rngB [0..<12]" by simp
    with d show False by simp
  qed
  have ct: "iv_separates pf \<longrightarrow> ?c rngA \<noteq> ?c rngB"
    using d by (simp add: iv_separates_def)
  show "\<exists>e1 e2 m1 m2 c1 c2.
                fst (encryptFile pf rngA P K) = Inr e1 \<and> fst (encryptFile pf rngB P K) = Inr e2
              \<and> ef_ivBytes e1 = map rngA [0..<12] \<and> ef_ivBytes e2 = map rngB [0..<12]
              \<and> ef_encryptedBlob e1 = aes_gcm_encrypt pf (material K) (map rngA [0..<12]) P
              \<and> ef_encryptedBlob e2 = aes_gcm_encrypt pf (material K) (map rngB [0..<12]) P
              \<and> ef_iv e1 \<noteq> ef_iv e2
              \<and> (iv_separates pf \<longrightarrow> ef_encryptedBlob e1 \<noteq> ef_encryptedBlob e2)
              \<and> fst (encryptMetadata pf rngA M K) = Inr m1
              \<and> fst (encryptMetadata pf rngB M K) = Inr m2
              \<and> c1 = aes_gcm_encrypt pf (material K) (map rngA [0..<12]) (json_encode pf M)
              \<and> c2 = aes_gcm_encrypt pf (material K) (map rngB [0..<12]) (json_encode pf M)
              \<and> map_option charCodes (atob m1) = Some (map rngA [0..<12] @ c1)
              \<and> map_option charCodes (atob m2) = Some (map rngB [0..<12] @ c2)
              \<and> m1 \<noteq> m2
              \<and> (iv_separates pf \<longrightarrow> c1 \<noteq> c2)"
    apply (rule exI [of _ "?e rngA"], rule exI [of _ "?e rngB"])
    apply (rule exI [of _ "?m rngA"], rule exI [of _ "?m rngB"])
    apply (rule exI [of _ "?c rngA"], rule exI [of _ "?c rngB"])
    apply (intro conjI)
    apply (rule e f iv blob m dec ne ct refl)+
    done
qed

theorem fresh_iv_per_envelope_witness:
  "Encrypt \<in> set (usages ex_key) \<and> extractable ex_key \<and> iv_separates toy
   \<and> map counting [0..<12] \<noteq> map counting_next [0..<12]
   \<and> fst (encryptFile toy counting ex_plain ex_key) = Inr ex_encrypted
   \<and> fst (encryptFile toy counting_next ex_plain ex_key) = Inr ex_encrypted_next
   \<and> ef_iv ex_encrypted \<noteq> ef_iv ex_encrypted_next
   \<and> ef_encryptedBlob ex_encrypted \<noteq> ef_encryptedBlob ex_encrypted_next
   \<and> fst (encryptMetadata toy counting ex_meta ex_key) = Inr ex_envelope
   \<and> fst (encryptMetadata toy counting_next ex_meta ex_key) = Inr ex_envelope_next
   \<and> map_option (take 12 \<circ> charCodes) (atob ex_envelope) = Some (map counting [0..<12])
   \<and> map_option (take 12 \<circ> charCodes) (atob ex_envelope_next)
       = Some (map counting_next [0..<12])
   \<and> map_option (drop 12 \<circ> charCodes) (atob ex_envelope)
       \<noteq> map_option (drop 12 \<circ> charCodes) (atob ex_envelope_next)"
proof -
  have k: "Encrypt \<in> set (usages ex_key)" "extractable ex_key"
    using generateKey_props [of counting] by (simp_all add: ex_key_def)
  have d: "map counting [0..<12] \<noteq> map counting_next [0..<12]" by code_simp
  have e1: "fst (encryptFile toy counting ex_plain ex_key) = Inr ex_encrypted" by code_simp
  have e2: "fst (encryptFile toy counting_next ex_plain ex_key) = Inr ex_encrypted_next"
    by code_simp
  have m1: "fst (encryptMetadata toy counting ex_meta ex_key) = Inr ex_envelope" by code_simp
  have m2: "fst (encryptMetadata toy counting_next ex_meta ex_key) = Inr ex_envelope_next"
    by code_simp
  from fresh_iv_per_envelope [OF k, of toy counting ex_plain ex_meta] d
  obtain a b x y c1 c2 where o:
     "fst (encryptFile toy counting ex_plain ex_key) = Inr a"
     "fst (encryptFile toy counting_next ex_plain ex_key) = Inr b"
     "ef_iv a \<noteq> ef_iv b" "iv_separates toy \<longrightarrow> ef_encryptedBlob a \<noteq> ef_encryptedBlob b"
     "fst (encryptMetadata toy counting ex_meta ex_key) = Inr x"
     "fst (encryptMetadata toy counting_next ex_meta ex_key) = Inr y"
     "map_option charCodes (atob x) = Some (map counting [0..<12] @ c1)"
     "map_option charCodes (atob y) = Some (map counting_next [0..<12] @ c2)"
     "iv_separates toy \<longrightarrow> c1 \<noteq> c2"
    by blast
  from o(1,2,3,4) e1 e2 toy_iv_separates
  have f: "ef_iv ex_encrypted \<noteq> ef_iv ex_encrypted_next
        \<and> ef_encryptedBlob ex_encrypted \<noteq> ef_encryptedBlob ex_encrypted_next"
    by simp
  from o(5,6) m1 m2 have xy: "x = ex_envelope" "y = ex_envelope_next" by simp_all
  from o(7) obtain bx where bx: "atob ex_envelope = Some bx"
      "charCodes bx = map counting [0..<12] @ c1"
    unfolding xy by auto
  from o(8) obtain bz where bz: "atob ex_envelope_next = Some bz"
      "charCodes bz = map counting_next [0..<12] @ c2"
    unfolding xy by auto
  from o(9) toy_iv_separates have c: "c1 \<noteq> c2" by simp
  have g: "map_option (take 12 \<circ> charCodes) (atob ex_envelope) = Some (map counting [0..<12])"
       "map_option (take 12 \<circ> charCodes) (atob ex_envelope_next)
          = Some (map counting_next [0..<12])"
       "map_option (drop 12 \<circ> charCodes) (atob ex_envelope)
          \<noteq> map_option (drop 12 \<circ> charCodes) (atob ex_envelope_next)"
    using c by (simp_all add: bx bz)
  from k d e1 e2 f m1 m2 g toy_iv_separates show ?thesis by blast
qed



section \<open>The password key-wrapping module: properties\<close>

lemma derive_in_range:
  "0 < n \<Longrightarrow> n < 4294967296 \<Longrightarrow>
     derivePasswordKey_Simple pf pw salt n =
       Inr \<lparr>material = pbkdf2 pf pw salt n, extractable = False, usages = [Encrypt, Decrypt]\<rparr>"
  by (simp add: derivePasswordKey_Simple_def)

lemma current_in_range: "0 < CURRENT_ITERATIONS" "CURRENT_ITERATIONS < 4294967296"
  by (simp_all add: CURRENT_ITERATIONS_def)

lemma iterationCount_current:
  "iterationCount (Some CURRENT_ITERATIONS) = CURRENT_ITERATIONS"
  by (simp add: iterationCount_def CURRENT_ITERATIONS_def)

lemma wrapKeyWithPassword_eq:
  "extractable K \<Longrightarrow>
     wrapKeyWithPassword pf rng K pw =
       (Inr ((wrappingAt pf CURRENT_ITERATIONS (map rng [0..<16]) (map rng [16..<28])
                (material K) pw (Some CURRENT_ITERATIONS))\<lparr>pp_version := Some 2\<rparr>),
        snd (getRandomValues 28 rng))"
proof -
  have "map (\<lambda>i. rng (16 + i)) [0..<12] = map rng [16..<28]"
  proof -
    have "[16..<28] = map (\<lambda>i. 16 + i) [0..<12]"
      by (simp add: map_add_upt add.commute [of 16])
    then show ?thesis by (simp only: map_map comp_def)
  qed
  then show "extractable K \<Longrightarrow> ?thesis"
    by (simp add: wrapKeyWithPassword_def getRandomValues_def exportKey_raw_def
          derive_in_range [OF current_in_range] subtle_encrypt_def wrappingAt_def)
qed

lemma unwrap_decoded:
  assumes "0 < iterationCount its" "iterationCount its < 4294967296"
  shows "unwrapKeyWithPassword pf (btoa (fromCharCode ct)) pw (btoa (fromCharCode salt))
       (btoa (fromCharCode iv)) its =
     (case aes_gcm_decrypt pf (pbkdf2 pf pw salt (iterationCount its)) iv ct of
        None \<Rightarrow> Inl IncorrectPassword
      | Some raw \<Rightarrow>
          if aes_length raw
          then Inr \<lparr>material = raw, extractable = True, usages = [Encrypt, Decrypt]\<rparr>
          else Inl IncorrectPassword)"
  by (simp add: unwrapKeyWithPassword_def atob_btoa charCodes_fromCharCode
        derive_in_range [OF assms] subtle_decrypt_def importKey_raw_def
        split: option.splits)

lemma unwrap_wrappingAt:
  assumes "aead_correct pf" "aes_length raw" "iterationCount its = n"
      and "0 < n" "n < 4294967296"
  shows "unwrapKeyWithPassword pf (pp_encryptedKey (wrappingAt pf n salt iv raw pw stored)) pw
           (pp_salt (wrappingAt pf n salt iv raw pw stored))
           (pp_iv (wrappingAt pf n salt iv raw pw stored)) its
         = Inr \<lparr>material = raw, extractable = True, usages = [Encrypt, Decrypt]\<rparr>"
  using assms by (simp add: wrappingAt_def unwrap_decoded aead_correct_def)

text \<open>
  Claim C3. On a platform whose AES-GCM decrypts what it encrypted, for every extractable
  256-bit file key \<open>K\<close>, every password and every state of the random source,
  \<open>wrapKeyWithPassword\<close> succeeds and \<open>unwrapKeyWithPassword\<close>, given the
  \<open>encryptedKey\<close>, \<open>salt\<close>, \<open>iv\<close> and \<open>iterations\<close> of the record and the same
  password, returns a key with the key bytes of \<open>K\<close> that decrypts whatever \<open>K\<close>
  encrypted.
\<close>

theorem password_wrap_round_trip:
  assumes "aead_correct pf" and "extractable K" and "length (material K) = 32"
  shows "\<exists>w K'. fst (wrapKeyWithPassword pf rng K pw) = Inr w
           \<and> unwrapKeyWithPassword pf (pp_encryptedKey w) pw (pp_salt w) (pp_iv w)
                 (pp_iterations w) = Inr K'
           \<and> material K' = material K
           \<and> (\<forall>iv Q c. subtle_encrypt pf K iv Q = Inr c \<longrightarrow> subtle_decrypt pf K' iv c = Inr Q)"
proof -
  let ?w = "(wrappingAt pf CURRENT_ITERATIONS (map rng [0..<16]) (map rng [16..<28])
                (material K) pw (Some CURRENT_ITERATIONS))\<lparr>pp_version := Some 2\<rparr>"
  let ?K' = "\<lparr>material = material K, extractable = True, usages = [Encrypt, Decrypt]\<rparr>"
  have len: "aes_length (material K)" using assms(3) by (simp add: aes_length_def)
  note ic = iterationCount_current
  have 1: "fst (wrapKeyWithPassword pf rng K pw) = Inr ?w"
    by (simp add: wrapKeyWithPassword_eq [OF assms(2)])
  have 2: "unwrapKeyWithPassword pf (pp_encryptedKey ?w) pw (pp_salt ?w) (pp_iv ?w)
             (pp_iterations ?w) = Inr ?K'"
    using unwrap_wrappingAt [OF assms(1) len ic current_in_range,
            of "map rng [0..<16]" "map rng [16..<28]" pw "Some CURRENT_ITERATIONS"]
    by (simp add: wrappingAt_def)
  have 3: "\<forall>iv Q c. subtle_encrypt pf K iv Q = Inr c \<longrightarrow> subtle_decrypt pf ?K' iv c = Inr Q"
    using assms(1)
    by (auto simp: subtle_encrypt_def subtle_decrypt_def aead_correct_def split: if_splits)
  from 1 2 3 show ?thesis by (intro exI [of _ ?w] exI [of _ ?K']) simp
qed

lemma toy_pbkdf2_current: "toy_pbkdf2 pw salt CURRENT_ITERATIONS = toy_kdf 240 pw salt"
  by (simp add: toy_pbkdf2_def CURRENT_ITERATIONS_def)

lemma toy_pbkdf2_legacy: "toy_pbkdf2 pw salt LEGACY_ITERATIONS = toy_kdf 160 pw salt"
  by (simp add: toy_pbkdf2_def LEGACY_ITERATIONS_def)

lemma counting_draws: "map counting [0..<16] = ex_salt" "map counting [16..<28] = ex_iv"
  by code_simp code_simp

lemma ex_wrapping_fields:
  "btoa (fromCharCode (toy_encrypt (toy_kdf 240 ex_password ex_salt) ex_iv (material ex_key)))
     = ''8fj/Bg0UGyIpMDc+RUxTWmFob3Z9hIuSmaCnrrW8w8pxeH+GjZSboqmwt77wQ29y''"
  "btoa (fromCharCode ex_salt) = ''AQgPFh0kKzI5QEdOVVxjag==''"
  "btoa (fromCharCode ex_iv) = ''cXh/ho2Um6KpsLe+''"
  by code_simp+

lemma ex_wrapping_eq: "fst (wrapKeyWithPassword toy counting ex_key ex_password) = Inr ex_wrapping"
proof -
  have k: "extractable ex_key" using generateKey_props [of counting] by (simp add: ex_key_def)
  have "fst (wrapKeyWithPassword toy counting ex_key ex_password) =
          Inr ((wrappingAt toy CURRENT_ITERATIONS ex_salt ex_iv (material ex_key) ex_password
                  (Some CURRENT_ITERATIONS))\<lparr>pp_version := Some 2\<rparr>)"
    by (simp only: wrapKeyWithPassword_eq [OF k] counting_draws fst_conv)
  also have "(wrappingAt toy CURRENT_ITERATIONS ex_salt ex_iv (material ex_key) ex_password
                  (Some CURRENT_ITERATIONS))\<lparr>pp_version := Some 2\<rparr> = ex_wrapping"
    by (simp add: wrappingAt_def toy_def toy_pbkdf2_current ex_wrapping_fields)
       (simp add: ex_wrapping_def CURRENT_ITERATIONS_def)
  finally show ?thesis .
qed

lemma unwrap_Inr_shape:
  "unwrapKeyWithPassword pf a pw c d e = Inr K' \<Longrightarrow> extractable K' \<and> usages K' = [Encrypt, Decrypt]"
  by (auto simp: unwrapKeyWithPassword_def importKey_raw_def Let_def
           split: option.splits sum.splits if_splits)

theorem password_wrap_round_trip_witness:
  "aead_correct toy \<and> extractable ex_key \<and> length (material ex_key) = 32
   \<and> fst (wrapKeyWithPassword toy counting ex_key ex_password) = Inr ex_wrapping
   \<and> unwrapKeyWithPassword toy (pp_encryptedKey ex_wrapping) ex_password (pp_salt ex_wrapping)
         (pp_iv ex_wrapping) (pp_iterations ex_wrapping) = Inr ex_unwrapped"
proof -
  have k: "extractable ex_key" "length (material ex_key) = 32"
    using generateKey_props [of counting] by (simp_all add: ex_key_def)
  from password_wrap_round_trip [OF toy_aead_correct k, of counting ex_password]
  obtain w K' where w: "fst (wrapKeyWithPassword toy counting ex_key ex_password) = Inr w"
     "unwrapKeyWithPassword toy (pp_encryptedKey w) ex_password (pp_salt w) (pp_iv w)
        (pp_iterations w) = Inr K'" "material K' = material ex_key"
    by blast
  from w(1) have weq: "w = ex_wrapping" by (simp add: ex_wrapping_eq)
  from unwrap_Inr_shape [OF w(2)] w(3) have "K' = ex_unwrapped"
    by (simp add: ex_unwrapped_def)
  with w(2) weq k toy_aead_correct ex_wrapping_eq show ?thesis by simp
qed

lemma unwrap_atob:
  assumes "atob saltStr = Some sb" "atob ivStr = Some ib" "atob ekStr = Some kb"
      and "0 < iterationCount its" "iterationCount its < 4294967296"
  shows "unwrapKeyWithPassword pf ekStr pw saltStr ivStr its =
     (case aes_gcm_decrypt pf (pbkdf2 pf pw (charCodes sb) (iterationCount its))
             (charCodes ib) (charCodes kb) of
        None \<Rightarrow> Inl IncorrectPassword
      | Some raw \<Rightarrow>
          if aes_length raw
          then Inr \<lparr>material = raw, extractable = True, usages = [Encrypt, Decrypt]\<rparr>
          else Inl IncorrectPassword)"
  using assms(1,2,3)
  by (simp add: unwrapKeyWithPassword_def derive_in_range [OF assms(4,5)] subtle_decrypt_def
        importKey_raw_def split: option.splits)

text \<open>
  Claim C4. Take the wrapping that \<open>wrapKeyWithPassword\<close> made of a key under one
  password, and present it to \<open>unwrapKeyWithPassword\<close> with any password, salt and IV.
  Whenever the AES-GCM authentication check on the wrapped key fails, the result is the
  error \<open>Incorrect Password\<close>; no other error is ever returned, whichever of the three
  was wrong; and a key is returned only when the authentication check passed.
\<close>

theorem wrong_password_rejected:
  assumes "extractable K"
  shows "\<exists>w ct. fst (wrapKeyWithPassword pf rng K pw) = Inr w
           \<and> pp_salt w = btoa (fromCharCode (map rng [0..<16]))
           \<and> pp_iv w = btoa (fromCharCode (map rng [16..<28]))
           \<and> pp_encryptedKey w = btoa (fromCharCode ct)
           \<and> (\<forall>pw' salt' iv'.
                 (aes_gcm_decrypt pf (pbkdf2 pf pw' salt' CURRENT_ITERATIONS) iv' ct = None
                    \<longrightarrow> unwrapKeyWithPassword pf (pp_encryptedKey w) pw'
                          (btoa (fromCharCode salt')) (btoa (fromCharCode iv'))
                          (pp_iterations w) = Inl IncorrectPassword)
               \<and> (\<forall>e. unwrapKeyWithPassword pf (pp_encryptedKey w) pw'
                          (btoa (fromCharCode salt')) (btoa (fromCharCode iv'))
                          (pp_iterations w) = Inl e \<longrightarrow> e = IncorrectPassword)
               \<and> (\<forall>K'. unwrapKeyWithPassword pf (pp_encryptedKey w) pw'
                          (btoa (fromCharCode salt')) (btoa (fromCharCode iv'))
                          (pp_iterations w) = Inr K'
                      \<longrightarrow> aes_gcm_decrypt pf (pbkdf2 pf pw' salt' CURRENT_ITERATIONS) iv' ct
                            = Some (material K')))"
proof -
  let ?ct = "aes_gcm_encrypt pf (pbkdf2 pf pw (map rng [0..<16]) CURRENT_ITERATIONS)
               (map rng [16..<28]) (material K)"
  let ?w = "(wrappingAt pf CURRENT_ITERATIONS (map rng [0..<16]) (map rng [16..<28])
                (material K) pw (Some CURRENT_ITERATIONS))\<lparr>pp_version := Some 2\<rparr>"
  note ic = iterationCount_current
  have r: "0 < iterationCount (Some CURRENT_ITERATIONS)"
          "iterationCount (Some CURRENT_ITERATIONS) < 4294967296"
    by (simp_all only: ic current_in_range)
  have 1: "fst (wrapKeyWithPassword pf rng K pw) = Inr ?w"
    by (simp add: wrapKeyWithPassword_eq [OF assms])
  have 2: "pp_salt ?w = btoa (fromCharCode (map rng [0..<16]))"
          "pp_iv ?w = btoa (fromCharCode (map rng [16..<28]))"
          "pp_encryptedKey ?w = btoa (fromCharCode ?ct)"
          "pp_iterations ?w = Some CURRENT_ITERATIONS"
    by (simp_all add: wrappingAt_def)
  have 3: "unwrapKeyWithPassword pf (pp_encryptedKey ?w) pw'
             (btoa (fromCharCode salt')) (btoa (fromCharCode iv')) (pp_iterations ?w) =
           (case aes_gcm_decrypt pf (pbkdf2 pf pw' salt' CURRENT_ITERATIONS) iv' ?ct of
              None \<Rightarrow> Inl IncorrectPassword
            | Some raw \<Rightarrow>
                if aes_length raw
                then Inr \<lparr>material = raw, extractable = True, usages = [Encrypt, Decrypt]\<rparr>
                else Inl IncorrectPassword)" for pw' salt' iv'
    by (simp only: 2 unwrap_decoded [OF r] ic)
  have 4: "\<forall>pw' salt' iv'.
             (aes_gcm_decrypt pf (pbkdf2 pf pw' salt' CURRENT_ITERATIONS) iv' ?ct = None
                \<longrightarrow> unwrapKeyWithPassword pf (pp_encryptedKey ?w) pw'
                      (btoa (fromCharCode salt')) (btoa (fromCharCode iv'))
                      (pp_iterations ?w) = Inl IncorrectPassword)
           \<and> (\<forall>e. unwrapKeyWithPassword pf (pp_encryptedKey ?w) pw'
                      (btoa (fromCharCode salt')) (btoa (fromCharCode iv'))
                      (pp_iterations ?w) = Inl e \<longrightarrow> e = IncorrectPassword)
           \<and> (\<forall>K'. unwrapKeyWithPassword pf (pp_encryptedKey ?w) pw'
                      (btoa (fromCharCode salt')) (btoa (fromCharCode iv'))
                      (pp_iterations ?w) = Inr K'
                  \<longrightarrow> aes_gcm_decrypt pf (pbkdf2 pf pw' salt' CURRENT_ITERATIONS) iv' ?ct
                        = Some (material K'))"
    unfolding 3 by (auto split: option.splits if_splits)
  from 1 2(1,2,3) 4 show ?thesis
    by (intro exI [of _ ?w] exI [of _ ?ct] conjI)
qed

lemma ex_wrong_fails:
  "toy_decrypt (toy_kdf 240 ex_wrong ex_salt) ex_iv
     (toy_encrypt (toy_kdf 240 ex_password ex_salt) ex_iv (material ex_key)) = None"
  by code_simp

theorem wrong_password_rejected_witness:
  "extractable ex_key
   \<and> fst (wrapKeyWithPassword toy counting ex_key ex_password) = Inr ex_wrapping
   \<and> aes_gcm_decrypt toy (pbkdf2 toy ex_wrong ex_salt CURRENT_ITERATIONS) ex_iv
         (aes_gcm_encrypt toy (pbkdf2 toy ex_password ex_salt CURRENT_ITERATIONS) ex_iv
            (material ex_key)) = None
   \<and> unwrapKeyWithPassword toy (pp_encryptedKey ex_wrapping) ex_wrong (pp_salt ex_wrapping)
         (pp_iv ex_wrapping) (pp_iterations ex_wrapping) = Inl (Error ''Incorrect Password'')"
proof -
  have k: "extractable ex_key" using generateKey_props [of counting] by (simp add: ex_key_def)
  have f: "aes_gcm_decrypt toy (pbkdf2 toy ex_wrong ex_salt CURRENT_ITERATIONS) ex_iv
         (aes_gcm_encrypt toy (pbkdf2 toy ex_password ex_salt CURRENT_ITERATIONS) ex_iv
            (material ex_key)) = None"
    using ex_wrong_fails by (simp add: toy_def toy_pbkdf2_current)
  from wrong_password_rejected [OF k, of toy counting ex_password]
  obtain w ct where w: "fst (wrapKeyWithPassword toy counting ex_key ex_password) = Inr w"
    "pp_salt w = btoa (fromCharCode (map counting [0..<16]))"
    "pp_iv w = btoa (fromCharCode (map counting [16..<28]))"
    "pp_encryptedKey w = btoa (fromCharCode ct)"
    "aes_gcm_decrypt toy (pbkdf2 toy ex_wrong ex_salt CURRENT_ITERATIONS) ex_iv ct = None
       \<longrightarrow> unwrapKeyWithPassword toy (pp_encryptedKey w) ex_wrong
             (btoa (fromCharCode ex_salt)) (btoa (fromCharCode ex_iv)) (pp_iterations w)
           = Inl IncorrectPassword"
    by blast
  from w(1) have weq: "w = ex_wrapping" by (simp add: ex_wrapping_eq)
  have "btoa (fromCharCode ct) = btoa (fromCharCode (aes_gcm_encrypt toy
          (pbkdf2 toy ex_password ex_salt CURRENT_ITERATIONS) ex_iv (material ex_key)))"
    using w(4) ex_wrapping_fields(1)
    by (simp add: weq ex_wrapping_def toy_def toy_pbkdf2_current)
  then have "fromCharCode ct = fromCharCode (aes_gcm_encrypt toy
          (pbkdf2 toy ex_password ex_salt CURRENT_ITERATIONS) ex_iv (material ex_key))"
    by (rule btoa_inj)
  then have ct: "ct = aes_gcm_encrypt toy
          (pbkdf2 toy ex_password ex_salt CURRENT_ITERATIONS) ex_iv (material ex_key)"
    by (rule fromCharCode_inj)
  from w(5) f have "unwrapKeyWithPassword toy (pp_encryptedKey w) ex_wrong
             (btoa (fromCharCode ex_salt)) (btoa (fromCharCode ex_iv)) (pp_iterations w)
           = Inl IncorrectPassword"
    by (simp add: ct)
  then have "unwrapKeyWithPassword toy (pp_encryptedKey ex_wrapping) ex_wrong
         (pp_salt ex_wrapping) (pp_iv ex_wrapping) (pp_iterations ex_wrapping)
           = Inl (Error ''Incorrect Password'')"
    using ex_wrapping_fields(2,3) by (simp add: weq ex_wrapping_def IncorrectPassword_def)
  with k f ex_wrapping_eq show ?thesis by simp
qed

lemma iterationCount_supplied: "0 < n \<Longrightarrow> iterationCount (Some n) = n"
  by (simp add: iterationCount_def)

lemma iterationCount_absent: "iterationCount None = 100000"
  by (simp add: iterationCount_def LEGACY_ITERATIONS_def)

text \<open>
  Claim C7. \<open>wrapKeyWithPassword\<close> records 310000 in the returned record, and that is
  the count its derivation used. \<open>unwrapKeyWithPassword\<close> derives the wrapping key
  with the supplied count, for every count that the key derivation accepts (1 up to
  4294967295; the upload schema admits 10000 up to 1000000), and with the legacy 100000
  when no count is supplied. So a wrapping created with any such count, the legacy
  100000 among them, unwraps to the wrapped key when that count is supplied, whatever
  the current default is; and a wrapping created with the legacy count does so too when
  no count is supplied.
\<close>

theorem iteration_count_compatibility:
  "(extractable K \<longrightarrow>
      (\<exists>w. fst (wrapKeyWithPassword pf rng K pw) = Inr w
         \<and> pp_iterations w = Some 310000
         \<and> pp_encryptedKey w =
             btoa (fromCharCode (aes_gcm_encrypt pf (pbkdf2 pf pw (map rng [0..<16]) 310000)
                                   (map rng [16..<28]) (material K)))))
   \<and> (atob saltStr = Some sb \<and> atob ivStr = Some ib \<and> atob ekStr = Some kb \<longrightarrow>
        (\<forall>n. 0 < n \<and> n < 4294967296 \<longrightarrow>
           unwrapKeyWithPassword pf ekStr pw' saltStr ivStr (Some n) =
             (case aes_gcm_decrypt pf (pbkdf2 pf pw' (charCodes sb) n)
                     (charCodes ib) (charCodes kb) of
                None \<Rightarrow> Inl IncorrectPassword
              | Some raw \<Rightarrow>
                  if aes_length raw
                  then Inr \<lparr>material = raw, extractable = True, usages = [Encrypt, Decrypt]\<rparr>
                  else Inl IncorrectPassword))
      \<and> unwrapKeyWithPassword pf ekStr pw' saltStr ivStr None =
             (case aes_gcm_decrypt pf (pbkdf2 pf pw' (charCodes sb) 100000)
                     (charCodes ib) (charCodes kb) of
                None \<Rightarrow> Inl IncorrectPassword
              | Some raw \<Rightarrow>
                  if aes_length raw
                  then Inr \<lparr>material = raw, extractable = True, usages = [Encrypt, Decrypt]\<rparr>
                  else Inl IncorrectPassword))
   \<and> (aead_correct pf \<and> aes_length raw \<longrightarrow>
        (\<forall>n. 0 < n \<and> n < 4294967296 \<longrightarrow>
           unwrapKeyWithPassword pf
             (pp_encryptedKey (wrappingAt pf n salt iv raw pw stored)) pw
             (pp_salt (wrappingAt pf n salt iv raw pw stored))
             (pp_iv (wrappingAt pf n salt iv raw pw stored)) (Some n)
           = Inr \<lparr>material = raw, extractable = True, usages = [Encrypt, Decrypt]\<rparr>)
      \<and> unwrapKeyWithPassword pf
             (pp_encryptedKey (wrappingAt pf 100000 salt iv raw pw stored)) pw
             (pp_salt (wrappingAt pf 100000 salt iv raw pw stored))
             (pp_iv (wrappingAt pf 100000 salt iv raw pw stored)) None
           = Inr \<lparr>material = raw, extractable = True, usages = [Encrypt, Decrypt]\<rparr>)"
proof (intro conjI impI allI)
  assume k: "extractable K"
  show "\<exists>w. fst (wrapKeyWithPassword pf rng K pw) = Inr w
         \<and> pp_iterations w = Some 310000
         \<and> pp_encryptedKey w =
             btoa (fromCharCode (aes_gcm_encrypt pf (pbkdf2 pf pw (map rng [0..<16]) 310000)
                                   (map rng [16..<28]) (material K)))"
    by (simp add: wrapKeyWithPassword_eq [OF k] wrappingAt_def CURRENT_ITERATIONS_def)
next
  fix n :: nat
  assume "atob saltStr = Some sb \<and> atob ivStr = Some ib \<and> atob ekStr = Some kb"
     and n: "0 < n \<and> n < 4294967296"
  then have a: "atob saltStr = Some sb" "atob ivStr = Some ib" "atob ekStr = Some kb"
    by simp_all
  from n have r: "0 < iterationCount (Some n)" "iterationCount (Some n) < 4294967296"
    by (simp_all add: iterationCount_supplied)
  from n show "unwrapKeyWithPassword pf ekStr pw' saltStr ivStr (Some n) =
             (case aes_gcm_decrypt pf (pbkdf2 pf pw' (charCodes sb) n)
                     (charCodes ib) (charCodes kb) of
                None \<Rightarrow> Inl IncorrectPassword
              | Some raw \<Rightarrow>
                  if aes_length raw
                  then Inr \<lparr>material = raw, extractable = True, usages = [Encrypt, Decrypt]\<rparr>
                  else Inl IncorrectPassword)"
    by (simp only: unwrap_atob [OF a r] iterationCount_supplied)
next
  assume "atob saltStr = Some sb \<and> atob ivStr = Some ib \<and> atob ekStr = Some kb"
  then have a: "atob saltStr = Some sb" "atob ivStr = Some ib" "atob ekStr = Some kb"
    by simp_all
  have r: "0 < iterationCount None" "iterationCount None < 4294967296"
    by (simp_all add: iterationCount_absent)
  show "unwrapKeyWithPassword pf ekStr pw' saltStr ivStr None =
             (case aes_gcm_decrypt pf (pbkdf2 pf pw' (charCodes sb) 100000)
                     (charCodes ib) (charCodes kb) of
                None \<Rightarrow> Inl IncorrectPassword
              | Some raw \<Rightarrow>
                  if aes_length raw
                  then Inr \<lparr>material = raw, extractable = True, usages = [Encrypt, Decrypt]\<rparr>
                  else Inl IncorrectPassword)"
    by (simp only: unwrap_atob [OF a r] iterationCount_absent)
next
  fix n :: nat
  assume p: "aead_correct pf \<and> aes_length raw" and n: "0 < n \<and> n < 4294967296"
  then show "unwrapKeyWithPassword pf
             (pp_encryptedKey (wrappingAt pf n salt iv raw pw stored)) pw
             (pp_salt (wrappingAt pf n salt iv raw pw stored))
             (pp_iv (wrappingAt pf n salt iv raw pw stored)) (Some n)
           = Inr \<lparr>material = raw, extractable = True, usages = [Encrypt, Decrypt]\<rparr>"
    by (intro unwrap_wrappingAt) (simp_all add: iterationCount_supplied)
next
  assume p: "aead_correct pf \<and> aes_length raw"
  then show "unwrapKeyWithPassword pf
             (pp_encryptedKey (wrappingAt pf 100000 salt iv raw pw stored)) pw
             (pp_salt (wrappingAt pf 100000 salt iv raw pw stored))
             (pp_iv (wrappingAt pf 100000 salt iv raw pw stored)) None
           = Inr \<lparr>material = raw, extractable = True, usages = [Encrypt, Decrypt]\<rparr>"
    by (intro unwrap_wrappingAt) (simp_all add: iterationCount_absent)
qed

lemma ex_legacy_fields:
  "btoa (fromCharCode (toy_encrypt (toy_kdf 160 ex_password ex_salt) ex_iv (material ex_key)))
     = ''oaivtr3Ey9LZ4Ofu9fwDChEYHyYtNDtCSVBXXmVsc3pxeH+GjZSboqmwt76gQ29y''"
  by code_simp

lemma ex_legacy_eq:
  "wrappingAt toy 100000 ex_salt ex_iv (material ex_key) ex_password None = ex_legacy"
  using toy_pbkdf2_legacy [of ex_password ex_salt]
  by (simp add: wrappingAt_def toy_def LEGACY_ITERATIONS_def ex_legacy_fields
        ex_wrapping_fields ex_legacy_def)

lemma ex_legacy_atob:
  "atob (pp_salt ex_legacy) = Some (fromCharCode ex_salt)"
  "atob (pp_iv ex_legacy) = Some (fromCharCode ex_iv)"
  "atob (pp_encryptedKey ex_legacy) =
     Some (fromCharCode (toy_encrypt (toy_kdf 160 ex_password ex_salt) ex_iv (material ex_key)))"
proof -
  have "pp_salt ex_legacy = btoa (fromCharCode ex_salt)"
       "pp_iv ex_legacy = btoa (fromCharCode ex_iv)"
       "pp_encryptedKey ex_legacy =
          btoa (fromCharCode (toy_encrypt (toy_kdf 160 ex_password ex_salt) ex_iv
                                (material ex_key)))"
    by (simp_all add: ex_legacy_def ex_wrapping_fields ex_legacy_fields)
  then show "atob (pp_salt ex_legacy) = Some (fromCharCode ex_salt)"
       "atob (pp_iv ex_legacy) = Some (fromCharCode ex_iv)"
       "atob (pp_encryptedKey ex_legacy) =
          Some (fromCharCode (toy_encrypt (toy_kdf 160 ex_password ex_salt) ex_iv
                                (material ex_key)))"
    by (simp_all only: atob_btoa)
qed

lemma ex_legacy_wrong_fails:
  "toy_decrypt (toy_kdf 160 ex_wrong ex_salt) ex_iv
     (toy_encrypt (toy_kdf 160 ex_password ex_salt) ex_iv (material ex_key)) = None"
  by code_simp

theorem iteration_count_compatibility_witness:
  "extractable ex_key \<and> aead_correct toy \<and> aes_length (material ex_key)
   \<and> atob (pp_salt ex_legacy) = Some (fromCharCode ex_salt)
   \<and> atob (pp_iv ex_legacy) = Some (fromCharCode ex_iv)
   \<and> atob (pp_encryptedKey ex_legacy) =
       Some (fromCharCode (toy_encrypt (toy_kdf 160 ex_password ex_salt) ex_iv
                             (material ex_key)))
   \<and> (0 :: nat) < 100000 \<and> (100000 :: nat) < 4294967296
   \<and> fst (wrapKeyWithPassword toy counting ex_key ex_password) = Inr ex_wrapping
   \<and> pp_iterations ex_wrapping = Some 310000
   \<and> unwrapKeyWithPassword toy (pp_encryptedKey ex_legacy) ex_password (pp_salt ex_legacy)
         (pp_iv ex_legacy) (Some 100000) = Inr ex_unwrapped
   \<and> unwrapKeyWithPassword toy (pp_encryptedKey ex_legacy) ex_password (pp_salt ex_legacy)
         (pp_iv ex_legacy) None = Inr ex_unwrapped
   \<and> unwrapKeyWithPassword toy (pp_encryptedKey ex_legacy) ex_wrong (pp_salt ex_legacy)
         (pp_iv ex_legacy) (Some 100000) = Inl IncorrectPassword"
proof -
  have k: "extractable ex_key" using generateKey_props [of counting] by (simp add: ex_key_def)
  have n: "(0 :: nat) < 100000 \<and> (100000 :: nat) < 4294967296" by simp
  note t = iteration_count_compatibility [where K = ex_key and pf = toy and rng = counting
             and pw = ex_password and saltStr = "pp_salt ex_legacy"
             and sb = "fromCharCode ex_salt" and ivStr = "pp_iv ex_legacy"
             and ib = "fromCharCode ex_iv" and ekStr = "pp_encryptedKey ex_legacy"
             and kb = "fromCharCode (toy_encrypt (toy_kdf 160 ex_password ex_salt) ex_iv
                                       (material ex_key))"
             and pw' = ex_wrong and raw = "material ex_key" and salt = ex_salt
             and iv = ex_iv and stored = None]
  from t toy_aead_correct ex_key_length n
  have "unwrapKeyWithPassword toy
          (pp_encryptedKey (wrappingAt toy 100000 ex_salt ex_iv (material ex_key) ex_password None))
          ex_password
          (pp_salt (wrappingAt toy 100000 ex_salt ex_iv (material ex_key) ex_password None))
          (pp_iv (wrappingAt toy 100000 ex_salt ex_iv (material ex_key) ex_password None))
          (Some 100000)
        = Inr \<lparr>material = material ex_key, extractable = True, usages = [Encrypt, Decrypt]\<rparr>"
       "unwrapKeyWithPassword toy
          (pp_encryptedKey (wrappingAt toy 100000 ex_salt ex_iv (material ex_key) ex_password None))
          ex_password
          (pp_salt (wrappingAt toy 100000 ex_salt ex_iv (material ex_key) ex_password None))
          (pp_iv (wrappingAt toy 100000 ex_salt ex_iv (material ex_key) ex_password None))
          None
        = Inr \<lparr>material = material ex_key, extractable = True, usages = [Encrypt, Decrypt]\<rparr>"
    by blast+
  then have u: "unwrapKeyWithPassword toy (pp_encryptedKey ex_legacy) ex_password
                  (pp_salt ex_legacy) (pp_iv ex_legacy) (Some 100000) = Inr ex_unwrapped"
    "unwrapKeyWithPassword toy (pp_encryptedKey ex_legacy) ex_password
                  (pp_salt ex_legacy) (pp_iv ex_legacy) None = Inr ex_unwrapped"
    by (simp_all only: ex_legacy_eq ex_unwrapped_def)
  from t ex_legacy_atob n
  have "unwrapKeyWithPassword toy (pp_encryptedKey ex_legacy) ex_wrong (pp_salt ex_legacy)
          (pp_iv ex_legacy) (Some 100000) =
        (case aes_gcm_decrypt toy
                (pbkdf2 toy ex_wrong (charCodes (fromCharCode ex_salt)) 100000)
                (charCodes (fromCharCode ex_iv))
                (charCodes (fromCharCode (toy_encrypt (toy_kdf 160 ex_password ex_salt) ex_iv
                                            (material ex_key)))) of
           None \<Rightarrow> Inl IncorrectPassword
         | Some raw \<Rightarrow>
             if aes_length raw
             then Inr \<lparr>material = raw, extractable = True, usages = [Encrypt, Decrypt]\<rparr>
             else Inl IncorrectPassword)"
    by blast
  then have w: "unwrapKeyWithPassword toy (pp_encryptedKey ex_legacy) ex_wrong
                  (pp_salt ex_legacy) (pp_iv ex_legacy) (Some 100000) = Inl IncorrectPassword"
    using toy_pbkdf2_legacy [of ex_wrong ex_salt] ex_legacy_wrong_fails
    by (simp add: charCodes_fromCharCode toy_def LEGACY_ITERATIONS_def)
  have "pp_iterations ex_wrapping = Some 310000" by (simp add: ex_wrapping_def)
  with k toy_aead_correct ex_key_length ex_wrapping_eq ex_legacy_atob u w show ?thesis
    by simp
qed


text \<open>
  Outside the counts that the key derivation accepts, the supplied count is not the one
  used: 0 is falsy and is read as an absent count, and a count of 4294967296 or more is
  refused by \<open>deriveKey\<close> before the \<open>try\<close>, so that the \<open>TypeError\<close> leaves
  \<open>unwrapKeyWithPassword\<close> as it is.
\<close>

lemma unwrap_count_zero:
  "unwrapKeyWithPassword pf ekStr pw saltStr ivStr (Some 0)
     = unwrapKeyWithPassword pf ekStr pw saltStr ivStr None"
proof -
  have z: "iterationCount (Some 0) = iterationCount None" by (simp add: iterationCount_def)
  show ?thesis unfolding unwrapKeyWithPassword_def z by (rule refl)
qed

lemma unwrap_count_refused:
  assumes "atob saltStr = Some sb" "atob ivStr = Some ib" "atob ekStr = Some kb"
      and "4294967296 \<le> n"
  shows "unwrapKeyWithPassword pf ekStr pw saltStr ivStr (Some n) = Inl TypeError"
  using assms
  by (simp add: unwrapKeyWithPassword_def iterationCount_def derivePasswordKey_Simple_def)


section \<open>The download page: error propagation\<close>

lemma ex_unwrap:
  "unwrapKeyWithPassword toy (pp_encryptedKey ex_wrapping) ex_password (pp_salt ex_wrapping)
     (pp_iv ex_wrapping) (pp_iterations ex_wrapping) = Inr ex_unwrapped"
proof -
  note ic = iterationCount_current
  have w: "ex_wrapping = (wrappingAt toy CURRENT_ITERATIONS ex_salt ex_iv (material ex_key)
             ex_password (Some CURRENT_ITERATIONS))\<lparr>pp_version := Some 2\<rparr>"
    by (simp add: wrappingAt_def toy_def toy_pbkdf2_current ex_wrapping_fields)
       (simp add: ex_wrapping_def CURRENT_ITERATIONS_def)
  show ?thesis
    using unwrap_wrappingAt [OF toy_aead_correct ex_key_length ic current_in_range,
            of ex_salt ex_iv ex_password "Some CURRENT_ITERATIONS"]
    by (simp add: w ex_unwrapped_def wrappingAt_def)
qed

lemma ex_unwrap_wrong:
  "unwrapKeyWithPassword toy (pp_encryptedKey ex_wrapping) ex_wrong (pp_salt ex_wrapping)
     (pp_iv ex_wrapping) (pp_iterations ex_wrapping) = Inl IncorrectPassword"
proof -
  have ic: "iterationCount (Some 310000) = CURRENT_ITERATIONS"
    by (simp add: iterationCount_def CURRENT_ITERATIONS_def)
  have r: "0 < iterationCount (Some 310000)" "iterationCount (Some 310000) < 4294967296"
    by (simp_all add: iterationCount_def)
  have "unwrapKeyWithPassword toy
          (btoa (fromCharCode (toy_encrypt (toy_kdf 240 ex_password ex_salt) ex_iv (material ex_key))))
          ex_wrong (btoa (fromCharCode ex_salt)) (btoa (fromCharCode ex_iv)) (Some 310000)
        = Inl IncorrectPassword"
    by (simp only: unwrap_decoded [OF r] ic)
       (simp add: toy_def toy_pbkdf2_current ex_wrong_fails)
  then show ?thesis by (simp add: ex_wrapping_fields ex_wrapping_def)
qed

lemma ex_metadata_fails:
  "decryptMetadataWithKey toy ''AAAA'' ex_unwrapped = Inl OperationError"
  by code_simp

lemma ex_blob_decrypts:
  "atob ''AQgPFh0kKzI5QEdO'' = Some (fromCharCode (ef_ivBytes ex_encrypted))"
  "subtle_decrypt toy ex_unwrapped (ef_ivBytes ex_encrypted) (ef_encryptedBlob ex_encrypted)
     = Inr ex_plain"
  by code_simp+

lemma acquireKey_password:
  assumes "fm_passwordProtection fd = Some pp" "pw \<noteq> []"
      and "truthy (turnstileToken pg) = Some tt" "turnstile net tt = Inr True"
  shows "acquireKey pf net fd pw hashKey pg =
     (case unwrapKeyWithPassword pf (pp_encryptedKey pp) pw (pp_salt pp) (pp_iv pp)
             (pp_iterations pp) of
        Inl e \<Rightarrow> Inl (e, pg\<lparr>effects := effects pg @ [VerifyTurnstile tt]\<rparr>)
      | Inr fileKey \<Rightarrow>
          (case decryptMetadataWithKey pf (fm_encryptedMetadata fd) fileKey of
             Inl e \<Rightarrow> Inr (Some fileKey, None, pg\<lparr>effects := effects pg @ [VerifyTurnstile tt]\<rparr>)
           | Inr m \<Rightarrow>
               Inr (Some fileKey, Some m,
                    pg\<lparr>effects := effects pg @ [VerifyTurnstile tt],
                       realFilename := Some (m_name m)\<rparr>)))"
  using assms by (simp add: acquireKey_def Let_def split: sum.splits)

lemma download_decrypt_fails:
  assumes "downloadToken net (if fm_passwordProtection fd \<noteq> None then Some sid else None)
             = Inr (Some r)"
      and "r_error r \<noteq> Some ''RATE_LIMITED''"
      and "truthy (r_url r) = Some u" "truthy (r_token r) = Some t"
      and "fetchBlob net u = Inr (True, blob)"
      and "decryptBlob pf fd key hashKey blob = Inl e"
  shows "download pf net sid fd hashKey rf key meta pg =
           failWith pf e
             (pg\<lparr>effects := effects pg @
                  [RequestToken (if fm_passwordProtection fd \<noteq> None then Some sid else None),
                   FetchBlob u]\<rparr>)"
  using assms by (simp add: download_def Let_def)

lemma download_confirm_swallowed:
  "download pf (net\<lparr>confirmRequest := c\<rparr>) sid fd hashKey rf key meta pg
     = download pf net sid fd hashKey rf key meta pg"
  by (simp add: download_def Let_def split: sum.splits option.splits prod.splits)

lemma acquireKey_confirm:
  "acquireKey pf (net\<lparr>confirmRequest := c\<rparr>) fd pw hashKey pg = acquireKey pf net fd pw hashKey pg"
  by (simp add: acquireKey_def Let_def split: option.splits sum.splits)

text \<open>
  Claim C9, as the code has it. On the password path, once the password is there and the
  human verification has passed: when the password unwrap fails, its error reaches the
  outer \<open>catch\<close>, which sets the status to error and shows the error's message, and no
  token is requested; when the metadata decryption fails, that failure is swallowed by
  the empty \<open>catch\<close> around it and the flow goes on as it does without metadata. On the
  fragment path a key string that does not decode makes the file decryption fail. When
  the file decryption fails, the error reaches the outer \<open>catch\<close> and nothing is saved
  or confirmed. What the confirmation request does never changes the outcome.
\<close>

theorem executeDownload_error_policy:
  "(fm_passwordProtection fd = Some pp \<and> pw \<noteq> [] \<and> truthy (turnstileToken pg0) = Some tt
      \<and> turnstile net tt = Inr True \<longrightarrow>
      (\<forall>e. unwrapKeyWithPassword pf (pp_encryptedKey pp) pw (pp_salt pp) (pp_iv pp)
              (pp_iterations pp) = Inl e \<longrightarrow>
           executeDownload pf net sid (Some fd) pw hashKey pg0 =
             pg0\<lparr>status := Failed, rateLimitMsg := None, errorMsg := message pf e,
                 effects := effects pg0 @ [VerifyTurnstile tt, ConsoleError e]\<rparr>)
    \<and> (\<forall>fileKey e.
           unwrapKeyWithPassword pf (pp_encryptedKey pp) pw (pp_salt pp) (pp_iv pp)
              (pp_iterations pp) = Inr fileKey
           \<and> decryptMetadataWithKey pf (fm_encryptedMetadata fd) fileKey = Inl e \<longrightarrow>
           executeDownload pf net sid (Some fd) pw hashKey pg0 =
             download pf net sid fd hashKey (realFilename pg0) (Some fileKey) None
               (pg0\<lparr>status := Decrypting, rateLimitMsg := None,
                    effects := effects pg0 @ [VerifyTurnstile tt]\<rparr>)))
   \<and> (\<forall>e blob. fm_passwordProtection fd = None \<and> importKeyString pf hashKey = Inl e \<longrightarrow>
          decryptBlob pf fd key hashKey blob = Inl e)
   \<and> (\<forall>r u t blob e.
          downloadToken net (if fm_passwordProtection fd \<noteq> None then Some sid else None)
             = Inr (Some r)
          \<and> r_error r \<noteq> Some ''RATE_LIMITED''
          \<and> truthy (r_url r) = Some u \<and> truthy (r_token r) = Some t
          \<and> fetchBlob net u = Inr (True, blob)
          \<and> decryptBlob pf fd key hashKey blob = Inl e \<longrightarrow>
          download pf net sid fd hashKey rf key meta pg =
            pg\<lparr>status := Failed, errorMsg := message pf e,
               effects := effects pg @
                 [RequestToken (if fm_passwordProtection fd \<noteq> None then Some sid else None),
                  FetchBlob u, ConsoleError e]\<rparr>)
   \<and> (\<forall>c. executeDownload pf (net\<lparr>confirmRequest := c\<rparr>) sid fdo pw hashKey pg0
            = executeDownload pf net sid fdo pw hashKey pg0)"
proof (intro conjI impI allI)
  fix e
  assume h: "fm_passwordProtection fd = Some pp \<and> pw \<noteq> [] \<and> truthy (turnstileToken pg0) = Some tt
      \<and> turnstile net tt = Inr True"
    and u: "unwrapKeyWithPassword pf (pp_encryptedKey pp) pw (pp_salt pp) (pp_iv pp)
              (pp_iterations pp) = Inl e"
  from h have t: "truthy (turnstileToken (pg0\<lparr>status := Decrypting, rateLimitMsg := None\<rparr>)) = Some tt"
    by simp
  from h have a: "fm_passwordProtection fd = Some pp" "pw \<noteq> []" "turnstile net tt = Inr True"
    by simp_all
  show "executeDownload pf net sid (Some fd) pw hashKey pg0 =
             pg0\<lparr>status := Failed, rateLimitMsg := None, errorMsg := message pf e,
                 effects := effects pg0 @ [VerifyTurnstile tt, ConsoleError e]\<rparr>"
    by (simp add: executeDownload_def Let_def acquireKey_password [OF a(1,2) t a(3)] u
          failWith_def)
next
  fix fileKey e
  assume h: "fm_passwordProtection fd = Some pp \<and> pw \<noteq> [] \<and> truthy (turnstileToken pg0) = Some tt
      \<and> turnstile net tt = Inr True"
    and u: "unwrapKeyWithPassword pf (pp_encryptedKey pp) pw (pp_salt pp) (pp_iv pp)
              (pp_iterations pp) = Inr fileKey
           \<and> decryptMetadataWithKey pf (fm_encryptedMetadata fd) fileKey = Inl e"
  from h have t: "truthy (turnstileToken (pg0\<lparr>status := Decrypting, rateLimitMsg := None\<rparr>)) = Some tt"
    by simp
  from h have a: "fm_passwordProtection fd = Some pp" "pw \<noteq> []" "turnstile net tt = Inr True"
    by simp_all
  show "executeDownload pf net sid (Some fd) pw hashKey pg0 =
             download pf net sid fd hashKey (realFilename pg0) (Some fileKey) None
               (pg0\<lparr>status := Decrypting, rateLimitMsg := None,
                    effects := effects pg0 @ [VerifyTurnstile tt]\<rparr>)"
    using u
    by (simp add: executeDownload_def Let_def acquireKey_password [OF a(1,2) t a(3)])
next
  fix e blob
  assume "fm_passwordProtection fd = None \<and> importKeyString pf hashKey = Inl e"
  then show "decryptBlob pf fd key hashKey blob = Inl e"
    by (simp add: decryptBlob_def decryptFile_def)
next
  fix r u t blob e
  assume h: "downloadToken net (if fm_passwordProtection fd \<noteq> None then Some sid else None)
             = Inr (Some r)
          \<and> r_error r \<noteq> Some ''RATE_LIMITED''
          \<and> truthy (r_url r) = Some u \<and> truthy (r_token r) = Some t
          \<and> fetchBlob net u = Inr (True, blob)
          \<and> decryptBlob pf fd key hashKey blob = Inl e"
  have "download pf net sid fd hashKey rf key meta pg =
           failWith pf e
             (pg\<lparr>effects := effects pg @
                  [RequestToken (if fm_passwordProtection fd \<noteq> None then Some sid else None),
                   FetchBlob u]\<rparr>)"
    by (rule download_decrypt_fails [of net fd sid r u t blob pf key hashKey e])
       (use h in blast)+
  then show "download pf net sid fd hashKey rf key meta pg =
            pg\<lparr>status := Failed, errorMsg := message pf e,
               effects := effects pg @
                 [RequestToken (if fm_passwordProtection fd \<noteq> None then Some sid else None),
                  FetchBlob u, ConsoleError e]\<rparr>"
    by (simp add: failWith_def)
next
  fix c
  show "executeDownload pf (net\<lparr>confirmRequest := c\<rparr>) sid fdo pw hashKey pg0
            = executeDownload pf net sid fdo pw hashKey pg0"
    by (simp add: executeDownload_def Let_def acquireKey_confirm download_confirm_swallowed
          split: option.splits sum.splits prod.splits)
qed

lemma ex_scenario:
  "fm_passwordProtection ex_fileData = Some ex_wrapping"
  "truthy (turnstileToken ex_page) = Some ''human''"
  "turnstile ex_net ''human'' = Inr True"
  by (simp_all add: ex_fileData_def ex_page_def truthy_def ex_net_def ex_turnstile_def)

theorem executeDownload_error_policy_witness:
  "fm_passwordProtection ex_fileData = Some ex_wrapping \<and> ex_wrong \<noteq> []
   \<and> truthy (turnstileToken ex_page) = Some ''human'' \<and> turnstile ex_net ''human'' = Inr True
   \<and> unwrapKeyWithPassword toy (pp_encryptedKey ex_wrapping) ex_wrong (pp_salt ex_wrapping)
         (pp_iv ex_wrapping) (pp_iterations ex_wrapping) = Inl IncorrectPassword
   \<and> executeDownload toy ex_net ''session-1'' (Some ex_fileData) ex_wrong [] ex_page =
       ex_page\<lparr>status := Failed, rateLimitMsg := None, errorMsg := ''Incorrect Password'',
               effects := [VerifyTurnstile ''human'', ConsoleError IncorrectPassword]\<rparr>"
proof -
  have w: "ex_wrong \<noteq> []" by (simp add: ex_wrong_def)
  have m: "message toy IncorrectPassword = ''Incorrect Password''"
    by (simp add: message_def IncorrectPassword_def)
  from executeDownload_error_policy [of ex_fileData ex_wrapping ex_wrong ex_page "''human''"
         ex_net toy "''session-1''" "[]"]
       ex_scenario w ex_unwrap_wrong
  have "executeDownload toy ex_net ''session-1'' (Some ex_fileData) ex_wrong [] ex_page =
          ex_page\<lparr>status := Failed, rateLimitMsg := None,
                  errorMsg := message toy IncorrectPassword,
                  effects := effects ex_page @ [VerifyTurnstile ''human'',
                                                ConsoleError IncorrectPassword]\<rparr>"
    by blast
  then have "executeDownload toy ex_net ''session-1'' (Some ex_fileData) ex_wrong [] ex_page =
       ex_page\<lparr>status := Failed, rateLimitMsg := None, errorMsg := ''Incorrect Password'',
               effects := [VerifyTurnstile ''human'', ConsoleError IncorrectPassword]\<rparr>"
    by (simp add: m) (simp add: ex_page_def)
  with ex_scenario w ex_unwrap_wrong show ?thesis by simp
qed

lemma ex_download:
  "download toy ex_net ''session-1'' ex_fileData [] None (Some ex_unwrapped) None
     (ex_page\<lparr>status := Decrypting, rateLimitMsg := None,
              effects := effects ex_page @ [VerifyTurnstile ''human'']\<rparr>)
   = \<lparr>status = Done, errorMsg = [], rateLimitMsg = None, realFilename = None,
       turnstileToken = Some ''human'',
       effects = [VerifyTurnstile ''human'', RequestToken (Some ''session-1''),
                  FetchBlob ''https://storage/blob-1'', Save ''File-x7k2m9qa'' ex_plain,
                  ConfirmDownload ''tok-1'']\<rparr>"
proof -
  have d: "decryptBlob toy ex_fileData (Some ex_unwrapped) [] (ef_encryptedBlob ex_encrypted)
             = Inr ex_plain"
    using ex_blob_decrypts
    by (simp add: decryptBlob_def ex_scenario(1)) (simp add: ex_fileData_def charCodes_fromCharCode)
  have f: "finalFilename None None ex_fileData = ''File-x7k2m9qa''"
    by (simp add: finalFilename_def truthy_def ex_fileData_def)
  show ?thesis
    by (simp add: download_def ex_scenario(1) ex_net_def ex_downloadToken_def truthy_def
          ex_fetchBlob_def d f ex_confirmRequest_def ex_page_def)
qed

text \<open>
  The metadata decryption is a failure before the file-decryption boundary that is
  silently swallowed: in the example the envelope \<open>AAAA\<close> fails to decrypt, yet the
  download ends with status done, no error shown or logged, and the file saved under its
  public label.
\<close>

theorem metadata_failure_swallowed_counterexample:
  "unwrapKeyWithPassword toy (pp_encryptedKey ex_wrapping) ex_password (pp_salt ex_wrapping)
         (pp_iv ex_wrapping) (pp_iterations ex_wrapping) = Inr ex_unwrapped
   \<and> decryptMetadataWithKey toy (fm_encryptedMetadata ex_fileData) ex_unwrapped
       = Inl OperationError
   \<and> executeDownload toy ex_net ''session-1'' (Some ex_fileData) ex_password [] ex_page =
       \<lparr>status = Done, errorMsg = [], rateLimitMsg = None, realFilename = None,
        turnstileToken = Some ''human'',
        effects = [VerifyTurnstile ''human'', RequestToken (Some ''session-1''),
                   FetchBlob ''https://storage/blob-1'', Save ''File-x7k2m9qa'' ex_plain,
                   ConfirmDownload ''tok-1'']\<rparr>"
proof -
  have p: "ex_password \<noteq> []" by (simp add: ex_password_def)
  have t: "truthy (turnstileToken (ex_page\<lparr>status := Decrypting, rateLimitMsg := None\<rparr>))
             = Some ''human''"
    using ex_scenario(2) by simp
  have md: "decryptMetadataWithKey toy (fm_encryptedMetadata ex_fileData) ex_unwrapped
              = Inl OperationError"
    using ex_metadata_fails by (simp add: ex_fileData_def)
  have "executeDownload toy ex_net ''session-1'' (Some ex_fileData) ex_password [] ex_page =
          download toy ex_net ''session-1'' ex_fileData [] None (Some ex_unwrapped) None
            (ex_page\<lparr>status := Decrypting, rateLimitMsg := None,
                     effects := effects ex_page @ [VerifyTurnstile ''human'']\<rparr>)"
    by (simp add: executeDownload_def Let_def
          acquireKey_password [OF ex_scenario(1) p t ex_scenario(3)] ex_unwrap md)
       (simp add: ex_page_def)
  with ex_unwrap md ex_download show ?thesis by simp
qed

end
